theory Spec2Isabelle
  imports Main "HOL-Library.Sublist"
begin

section \<open>Strings and POSIX paths\<close>

text \<open>
  JavaScript strings are modelled as \<open>string\<close> (lists of characters).  The program runs on
  the POSIX flavour of Node's \<open>path\<close> module, so \<open>path.sep\<close> is the slash.  The functions of
  \<open>node:path\<close> that the program calls are modelled on segment lists: a path is split at the
  separator, normalised, and joined again.
\<close>

definition path_sep :: char where
  "path_sep = CHR ''/''"

text \<open>\<open>s.split(c)\<close> for a one-character separator: the empty string splits into one empty piece.\<close>

fun split_on :: "char \<Rightarrow> string \<Rightarrow> string list" where
  "split_on c [] = [[]]"
| "split_on c (x # xs) =
     (if x = c then [] # split_on c xs
      else (case split_on c xs of [] \<Rightarrow> [[x]] | s # ss \<Rightarrow> (x # s) # ss))"

text \<open>\<open>pieces.join(sep)\<close>.\<close>

fun join_with :: "string \<Rightarrow> string list \<Rightarrow> string" where
  "join_with sep [] = []"
| "join_with sep [s] = s"
| "join_with sep (s # t # ss) = s @ sep @ join_with sep (t # ss)"

text \<open>
  Node's \<open>normalizeString\<close>: empty and \<open>.\<close> segments vanish, \<open>..\<close> removes the segment before
  it; above the start it is kept only when \<open>allowAboveRoot\<close> holds.  The accumulator is the
  result so far, last segment first.
\<close>

fun normalizeString :: "bool \<Rightarrow> string list \<Rightarrow> string list \<Rightarrow> string list" where
  "normalizeString allowAboveRoot acc [] = rev acc"
| "normalizeString allowAboveRoot acc (s # ss) =
     (if s = [] \<or> s = ''.'' then normalizeString allowAboveRoot acc ss
      else if s = ''..'' then
        (case acc of
           [] \<Rightarrow> normalizeString allowAboveRoot (if allowAboveRoot then [''..''] else []) ss
         | a # as \<Rightarrow>
             if a = ''..'' then normalizeString allowAboveRoot (''..'' # acc) ss
             else normalizeString allowAboveRoot as ss)
      else normalizeString allowAboveRoot (s # acc) ss)"

definition path_normalize :: "string \<Rightarrow> string" where
  "path_normalize p =
     (if p = [] then ''.''
      else
        let isAbsolute = (hd p = path_sep);
            trailingSeparator = (last p = path_sep);
            body = join_with [path_sep] (normalizeString (\<not> isAbsolute) [] (split_on path_sep p))
        in if body = [] then
             (if isAbsolute then [path_sep] else if trailingSeparator then ''./'' else ''.'')
           else (if isAbsolute then [path_sep] else []) @ body
                @ (if trailingSeparator then [path_sep] else []))"

text \<open>\<open>path.join(a, b)\<close>: the non-empty arguments joined by the separator, then normalised.\<close>

definition path_join :: "string \<Rightarrow> string \<Rightarrow> string" where
  "path_join a b =
     (if a = [] \<and> b = [] then ''.''
      else if a = [] then path_normalize b
      else if b = [] then path_normalize a
      else path_normalize (a @ [path_sep] @ b))"

text \<open>The segments of an absolute path after resolution.\<close>

definition resolvedSegments :: "string \<Rightarrow> string list" where
  "resolvedSegments p = normalizeString False [] (split_on path_sep p)"

text \<open>The absolute path with the given segments; the root directory has none.\<close>

definition abs_path :: "string list \<Rightarrow> string" where
  "abs_path segs = path_sep # join_with [path_sep] segs"

text \<open>
  \<open>path.resolve(p)\<close> in a process whose working directory is \<open>cwd\<close>: an absolute argument stands
  alone, a relative one is appended to the working directory.
\<close>

definition path_resolve :: "string \<Rightarrow> string \<Rightarrow> string" where
  "path_resolve cwd p =
     abs_path (resolvedSegments (if p \<noteq> [] \<and> hd p = path_sep then p else cwd @ [path_sep] @ p))"

fun dropCommon :: "string list \<Rightarrow> string list \<Rightarrow> string list \<times> string list" where
  "dropCommon (x # xs) (y # ys) = (if x = y then dropCommon xs ys else (x # xs, y # ys))"
| "dropCommon xs ys = (xs, ys)"

text \<open>
  \<open>path.relative(from, to)\<close> for absolute arguments: both are resolved, the common leading
  segments are dropped, every remaining segment of \<open>from\<close> becomes \<open>..\<close>, and the remaining
  segments of \<open>to\<close> follow.
\<close>

definition path_relative :: "string \<Rightarrow> string \<Rightarrow> string" where
  "path_relative from to =
     (case dropCommon (resolvedSegments from) (resolvedSegments to) of
        (f, t) \<Rightarrow> join_with [path_sep] (replicate (length f) ''..'' @ t))"

text \<open>
  \<open>path.extname(p)\<close>: the last component of the path, trailing separators ignored, from its
  last dot on; empty when there is no dot, when the only dot is the first character, and for
  the component \<open>..\<close>.
\<close>

definition path_extname :: "string \<Rightarrow> string" where
  "path_extname p =
     (let base = rev (takeWhile (\<lambda>c. c \<noteq> path_sep) (dropWhile (\<lambda>c. c = path_sep) (rev p)));
          after = rev (takeWhile (\<lambda>c. c \<noteq> CHR ''.'') (rev base))
      in if CHR ''.'' \<notin> set base then []
         else if length after + 1 = length base then []
         else if base = ''..'' then []
         else CHR ''.'' # after)"

text \<open>\<open>s.slice(0, e)\<close>: a negative end counts from the end of the string.\<close>

definition slice0 :: "string \<Rightarrow> int \<Rightarrow> string" where
  "slice0 s e =
     take (nat (if e < 0 then max (int (length s) + e) 0 else min e (int (length s)))) s"

text \<open>\<open>s.endsWith(t)\<close>.\<close>

definition endsWith :: "string \<Rightarrow> string \<Rightarrow> bool" where
  "endsWith s t = (length t \<le> length s \<and> drop (length s - length t) s = t)"

subsection \<open>Decoding text\<close>

text \<open>
  A character of a \<open>string\<close> is a byte, and a text is held as its UTF-8 encoding.
  \<open>buffer.toString('utf8')\<close>, which \<open>readFileSync(path, 'utf8')\<close> applies to the bytes of the
  file, never throws: a well-formed sequence is kept, and every maximal ill-formed part
  becomes the replacement character U+FFFD (the bytes \<open>EF BF BD\<close>).  \<open>utf8_lead\<close> classifies a
  byte that starts a sequence: the number of bytes that must follow, and the range of the
  first of them.  \<open>utf8_decode_from\<close> is the decoder, with the number of bytes still needed,
  the range of the next byte, and the bytes of the sequence seen so far.
\<close>

definition replacement :: string where
  "replacement = [CHR 0xEF, CHR 0xBF, CHR 0xBD]"

datatype lead = Ascii | Lead nat nat nat | Invalid

definition utf8_lead :: "char \<Rightarrow> lead" where
  "utf8_lead b =
     (let n = (of_char b :: nat) in
      if n \<le> 0x7F then Ascii
      else if 0xC2 \<le> n \<and> n \<le> 0xDF then Lead 1 0x80 0xBF
      else if n = 0xE0 then Lead 2 0xA0 0xBF
      else if n = 0xED then Lead 2 0x80 0x9F
      else if 0xE1 \<le> n \<and> n \<le> 0xEF then Lead 2 0x80 0xBF
      else if n = 0xF0 then Lead 3 0x90 0xBF
      else if n = 0xF4 then Lead 3 0x80 0x8F
      else if 0xF1 \<le> n \<and> n \<le> 0xF3 then Lead 3 0x80 0xBF
      else Invalid)"

fun utf8_decode_from :: "nat \<Rightarrow> nat \<Rightarrow> nat \<Rightarrow> string \<Rightarrow> string \<Rightarrow> string" where
  "utf8_decode_from needed lower upper seen [] = (if needed = 0 then [] else replacement)"
| "utf8_decode_from needed lower upper seen (b # bytes) =
     (if needed \<noteq> 0 \<and> lower \<le> of_char b \<and> of_char b \<le> upper then
        (if needed = 1 then seen @ [b] @ utf8_decode_from 0 0x80 0xBF [] bytes
         else utf8_decode_from (needed - 1) 0x80 0xBF (seen @ [b]) bytes)
      else
        (if needed \<noteq> 0 then replacement else [])
        @ (case utf8_lead b of
             Ascii \<Rightarrow> b # utf8_decode_from 0 0x80 0xBF [] bytes
           | Lead n lo hi \<Rightarrow> utf8_decode_from n lo hi [b] bytes
           | Invalid \<Rightarrow> replacement @ utf8_decode_from 0 0x80 0xBF [] bytes))"

definition utf8_decode :: "string \<Rightarrow> string" where
  "utf8_decode bytes = utf8_decode_from 0 0x80 0xBF [] bytes"

section \<open>The file system\<close>

text \<open>
  A directory entry as \<open>readdirSync(dir, {withFileTypes: true})\<close> reports it, together with
  what lies below it.  \<open>Dir\<close> carries its listing in the order \<open>readdirSync\<close> returns it;
  \<open>NoListDir\<close> is a directory whose listing throws with the given message.  A symbolic link
  and a special file (socket, pipe, device) answer false to both \<open>isDirectory()\<close> and
  \<open>isFile()\<close>.
\<close>

datatype node =
    File
  | Dir "(string \<times> node) list"
  | NoListDir string
  | Symlink
  | Special

fun isDirectory :: "node \<Rightarrow> bool" where
  "isDirectory (Dir _) = True"
| "isDirectory (NoListDir _) = True"
| "isDirectory _ = False"

fun isFile :: "node \<Rightarrow> bool" where
  "isFile File = True"
| "isFile _ = False"

text \<open>A run ends early by \<open>process.exit(code)\<close> or by an exception that nothing catches.\<close>

datatype error = Exit nat | Thrown string

text \<open>
  The calls of \<open>node:fs\<close> besides \<open>readdirSync\<close>.  A call that throws yields the message of
  the exception.  \<open>lstatSync\<close> yields the entry at the path together with the tree below it,
  which is what \<open>readdirSync\<close> lists during the walk.  \<open>readBytes\<close> is the read of the bytes of
  a file, the part of \<open>readFileSync\<close> that can throw.  The calls that change the file system
  (\<open>mkdirSync\<close>, \<open>rmSync\<close>, \<open>copyFileSync\<close>) act below \<open>flatbrain\<close> only, where the program
  never lists or reads, so the functions of the record are fixed during a run.
\<close>

record filesystem =
  existsSync :: "string \<Rightarrow> bool"
  lstatSync :: "string \<Rightarrow> string + node"
  readBytes :: "string \<Rightarrow> string + string"
  copyFileSync :: "string \<Rightarrow> string \<Rightarrow> string option"
  mkdirSync :: "string \<Rightarrow> string option"
  rmSync :: "string \<Rightarrow> string option"

text \<open>
  \<open>fs.readFileSync(path, 'utf8')\<close>, the only form in which the program reads a file: the
  bytes are read, which may throw, and decoded, which does not.
\<close>

definition readFileSync :: "filesystem \<Rightarrow> string \<Rightarrow> string + string" where
  "readFileSync fs path =
     (case readBytes fs path of
        Inl message \<Rightarrow> Inl message
      | Inr bytes \<Rightarrow> Inr (utf8_decode bytes))"

text \<open>
  An instance of the \<open>ignore\<close> package: \<open>ig.ignores(path)\<close> answers whether the patterns
  exclude the path, and throws on a path it does not accept.  The package itself is a
  parameter: it maps the pattern lines added to the instance to that instance.
\<close>

type_synonym ignore = "string \<Rightarrow> error + bool"

section \<open>The program\<close>

definition loadGitignore :: "(string list \<Rightarrow> ignore) \<Rightarrow> filesystem \<Rightarrow> string \<Rightarrow> error + ignore" where
  "loadGitignore ignore_add fs rootDir =
     (let gitignorePath = path_join rootDir ''.gitignore'' in
      if existsSync fs gitignorePath then
        (case readFileSync fs gitignorePath of
           Inl m \<Rightarrow> Inl (Thrown m)
         | Inr gitignoreContents \<Rightarrow> Inr (ignore_add (split_on CHR ''\<newline>'' gitignoreContents)))
      else Inr (ignore_add []))"

text \<open>
  \<open>walkDirectory\<close> lists the directory and loops over the entries; \<open>walkEntries\<close> is that loop.
  The shared array \<open>fileList\<close> is passed through and returned.  Listing anything but a
  listable directory throws.
\<close>

fun walkDirectory ::
  "node \<Rightarrow> string \<Rightarrow> string list \<Rightarrow> string \<Rightarrow> ignore \<Rightarrow> string set \<Rightarrow> string set
     \<Rightarrow> error + string list"
and walkEntries ::
  "(string \<times> node) list \<Rightarrow> string \<Rightarrow> string list \<Rightarrow> string \<Rightarrow> ignore \<Rightarrow> string set \<Rightarrow> string set
     \<Rightarrow> error + string list"
where
  "walkDirectory (Dir entries) dirPath fileList rootDir ig excludeDirs excludeFiles =
     walkEntries entries dirPath fileList rootDir ig excludeDirs excludeFiles"
| "walkDirectory (NoListDir m) dirPath fileList rootDir ig excludeDirs excludeFiles =
     Inl (Thrown m)"
| "walkDirectory File dirPath fileList rootDir ig excludeDirs excludeFiles =
     Inl (Thrown ''ENOTDIR: not a directory'')"
| "walkDirectory Symlink dirPath fileList rootDir ig excludeDirs excludeFiles =
     Inl (Thrown ''ENOTDIR: not a directory'')"
| "walkDirectory Special dirPath fileList rootDir ig excludeDirs excludeFiles =
     Inl (Thrown ''ENOTDIR: not a directory'')"
| "walkEntries [] dirPath fileList rootDir ig excludeDirs excludeFiles = Inr fileList"
| "walkEntries ((name, entry) # rest) dirPath fileList rootDir ig excludeDirs excludeFiles =
     (if name = ''flatbrain'' then
        walkEntries rest dirPath fileList rootDir ig excludeDirs excludeFiles
      else if name = ''.git'' then
        walkEntries rest dirPath fileList rootDir ig excludeDirs excludeFiles
      else if isDirectory entry \<and> name \<in> excludeDirs then
        walkEntries rest dirPath fileList rootDir ig excludeDirs excludeFiles
      else if isFile entry \<and> name \<in> excludeFiles then
        walkEntries rest dirPath fileList rootDir ig excludeDirs excludeFiles
      else
        (case ig (path_relative rootDir (path_join dirPath name)) of
           Inl e \<Rightarrow> Inl e
         | Inr True \<Rightarrow> walkEntries rest dirPath fileList rootDir ig excludeDirs excludeFiles
         | Inr False \<Rightarrow>
             (if isDirectory entry then
                (case walkDirectory entry (path_join dirPath name) fileList rootDir ig
                        excludeDirs excludeFiles of
                   Inl e \<Rightarrow> Inl e
                 | Inr fileList' \<Rightarrow>
                     walkEntries rest dirPath fileList' rootDir ig excludeDirs excludeFiles)
              else
                walkEntries rest dirPath (fileList @ [path_join dirPath name]) rootDir ig
                  excludeDirs excludeFiles)))"

definition getFlattenedFileName :: "string \<Rightarrow> string \<Rightarrow> string" where
  "getFlattenedFileName filePath rootDir =
     map (\<lambda>c. if c = path_sep then CHR ''^'' else c) (path_relative rootDir filePath)"

text \<open>
  The value of \<open>flattenedFileName\<close> when the copy loop of \<open>flattenProject\<close> builds the
  destination path: the flattened name, its extension replaced when the extension is in
  \<open>toTxtExtensions\<close>.
\<close>

definition flattenedFileName :: "string \<Rightarrow> string \<Rightarrow> string set \<Rightarrow> string" where
  "flattenedFileName filePath rootDir toTxtExtensions =
     (let name = getFlattenedFileName filePath rootDir;
          ext = path_extname name
      in if ext \<in> toTxtExtensions then slice0 name (- int (length ext)) @ ''.txt'' else name)"

text \<open>
  The first statement of both \<open>flattenProject\<close> and \<open>concatenateFiles\<close>:
  \<open>directoryArg ? path.resolve(directoryArg) : process.cwd()\<close>.  An absent argument and the
  empty string are both falsy.
\<close>

definition rootDirOf :: "string \<Rightarrow> string option \<Rightarrow> string" where
  "rootDirOf cwd directoryArg =
     (case directoryArg of
        None \<Rightarrow> cwd
      | Some d \<Rightarrow> if d = [] then cwd else path_resolve cwd d)"

text \<open>
  The copy loop.  The state is the list of copies made so far, each a source and a
  destination; a copy that throws ends the run and leaves the earlier copies in place.
\<close>

fun copyFiles ::
  "filesystem \<Rightarrow> string list \<Rightarrow> string \<Rightarrow> string \<Rightarrow> string set \<Rightarrow> (string \<times> string) list
     \<Rightarrow> (string \<times> string) list \<times> error option" where
  "copyFiles fs [] rootDir flattenedDir toTxtExtensions copied = (copied, None)"
| "copyFiles fs (filePath # rest) rootDir flattenedDir toTxtExtensions copied =
     (case copyFileSync fs filePath
             (path_join flattenedDir (flattenedFileName filePath rootDir toTxtExtensions)) of
        Some m \<Rightarrow> (copied, Some (Thrown m))
      | None \<Rightarrow>
          copyFiles fs rest rootDir flattenedDir toTxtExtensions
            (copied @ [(filePath,
               path_join flattenedDir (flattenedFileName filePath rootDir toTxtExtensions))]))"

text \<open>
  The preparation of the output directory of \<open>flattenProject\<close>: an existing
  \<open>flatbrain/flattened\<close> is removed, a missing \<open>flatbrain\<close> is created, then
  \<open>flatbrain/flattened\<close> is created.  The result is the message of the first call that
  throws.  The walk skips every entry named \<open>flatbrain\<close>, so these calls do not change what
  the walk sees, and the tree is the one found at the root.
\<close>

definition freshFlattenedDir :: "filesystem \<Rightarrow> string \<Rightarrow> string \<Rightarrow> string option" where
  "freshFlattenedDir fs flatbrainDir flattenedDir =
     (case (if existsSync fs flatbrainDir then
              (if existsSync fs flattenedDir then rmSync fs flattenedDir else None)
            else mkdirSync fs flatbrainDir) of
        Some m \<Rightarrow> Some m
      | None \<Rightarrow> mkdirSync fs flattenedDir)"

text \<open>
  \<open>flattenProject\<close>: the root is validated, the ignore file loaded, the output directory
  prepared, the tree walked, the files copied.  The result is the list of copies made and
  the error that ended the run, if any.
\<close>

definition flattenProject ::
  "(string list \<Rightarrow> ignore) \<Rightarrow> filesystem \<Rightarrow> string \<Rightarrow> string option \<Rightarrow> string set \<Rightarrow> string set
     \<Rightarrow> string set \<Rightarrow> (string \<times> string) list \<times> error option" where
  "flattenProject ignore_add fs cwd directoryArg excludeDirs excludeFiles toTxtExtensions =
     (let rootDir = rootDirOf cwd directoryArg
      in if \<not> existsSync fs rootDir then ([], Some (Exit 1))
         else case lstatSync fs rootDir of
           Inl m \<Rightarrow> ([], Some (Thrown m))
         | Inr root \<Rightarrow>
             if \<not> isDirectory root then ([], Some (Exit 1))
             else case loadGitignore ignore_add fs rootDir of
               Inl e \<Rightarrow> ([], Some e)
             | Inr ig \<Rightarrow>
                 (case freshFlattenedDir fs (path_join rootDir ''flatbrain'')
                         (path_join (path_join rootDir ''flatbrain'') ''flattened'') of
                    Some m \<Rightarrow> ([], Some (Thrown m))
                  | None \<Rightarrow>
                      (case walkDirectory root rootDir [] rootDir ig excludeDirs excludeFiles of
                         Inl e \<Rightarrow> ([], Some e)
                       | Inr filePaths \<Rightarrow>
                           copyFiles fs filePaths rootDir
                             (path_join (path_join rootDir ''flatbrain'') ''flattened'')
                             toTxtExtensions [])))"

text \<open>
  The loop of \<open>concatenateFiles\<close>.  The state is the text written to the stream so far.
\<close>

fun writeFiles :: "filesystem \<Rightarrow> string list \<Rightarrow> string \<Rightarrow> string \<Rightarrow> string" where
  "writeFiles fs [] rootDir written = written"
| "writeFiles fs (filePath # rest) rootDir written =
     writeFiles fs rest rootDir
       (written @ ''\<newline>=== '' @ path_relative rootDir filePath @ '' ===\<newline>''
        @ (case readFileSync fs filePath of
             Inr content \<Rightarrow>
               content @ (if \<not> endsWith content ''\<newline>'' then ''\<newline>'' else [])
           | Inl message \<Rightarrow> ''[Error reading file: '' @ message @ '']\<newline>''))"

text \<open>
  The preparation of the output directory of \<open>concatenateFiles\<close>: a missing \<open>flatbrain\<close> and
  a missing \<open>flatbrain/concat\<close> are created; an existing one is left as it is.
\<close>

definition ensureConcatDir :: "filesystem \<Rightarrow> string \<Rightarrow> string \<Rightarrow> string option" where
  "ensureConcatDir fs flatbrainDir concatDir =
     (case (if \<not> existsSync fs flatbrainDir then mkdirSync fs flatbrainDir else None) of
        Some m \<Rightarrow> Some m
      | None \<Rightarrow> (if existsSync fs concatDir then None else mkdirSync fs concatDir))"

text \<open>
  \<open>concatenateFiles\<close>: the same validation and loading, the preparation of the output
  directory, the walk; an output file of the same name is removed, and the blocks are
  written.  The result is the path of the output file and the text written to it, which
  is the whole content of that file.  Errors that the stream reports after the function
  has returned are not part of the model.
\<close>

definition concatenateFiles ::
  "(string list \<Rightarrow> ignore) \<Rightarrow> filesystem \<Rightarrow> string \<Rightarrow> string option \<Rightarrow> string set \<Rightarrow> string set
     \<Rightarrow> string \<Rightarrow> error + string \<times> string" where
  "concatenateFiles ignore_add fs cwd directoryArg excludeDirs excludeFiles outputFile =
     (let rootDir = rootDirOf cwd directoryArg
      in if \<not> existsSync fs rootDir then Inl (Exit 1)
         else case lstatSync fs rootDir of
           Inl m \<Rightarrow> Inl (Thrown m)
         | Inr root \<Rightarrow>
             if \<not> isDirectory root then Inl (Exit 1)
             else case loadGitignore ignore_add fs rootDir of
               Inl e \<Rightarrow> Inl e
             | Inr ig \<Rightarrow>
                 (case ensureConcatDir fs (path_join rootDir ''flatbrain'')
                         (path_join (path_join rootDir ''flatbrain'') ''concat'') of
                    Some m \<Rightarrow> Inl (Thrown m)
                  | None \<Rightarrow>
                      (let outPath =
                             path_join (path_join (path_join rootDir ''flatbrain'') ''concat'')
                               (if outputFile = [] then ''all.txt'' else outputFile)
                       in case walkDirectory root rootDir [] rootDir ig excludeDirs excludeFiles of
                            Inl e \<Rightarrow> Inl e
                          | Inr filePaths \<Rightarrow>
                              (case (if existsSync fs outPath then rmSync fs outPath else None) of
                                 Some m \<Rightarrow> Inl (Thrown m)
                               | None \<Rightarrow> Inr (outPath, writeFiles fs filePaths rootDir [])))))"

subsection \<open>The commands\<close>

definition DEFAULT_LOCKFILES :: "string set" where
  "DEFAULT_LOCKFILES = {''yarn.lock'', ''package-lock.json'', ''pnpm-lock.yaml''}"

text \<open>
  The options that the command line parser hands to an action; \<open>flatten\<close> has no output name
  and \<open>concat\<close> no \<open>toTxt\<close>, and the action of each does not read the other's field.
\<close>

record options =
  excludeDir :: "string list"
  excludeFile :: "string list"
  toTxt :: "string list"
  outputName :: string

definition flatten_action ::
  "(string list \<Rightarrow> ignore) \<Rightarrow> filesystem \<Rightarrow> string \<Rightarrow> string option \<Rightarrow> options
     \<Rightarrow> (string \<times> string) list \<times> error option" where
  "flatten_action ignore_add fs cwd directory options =
     flattenProject ignore_add fs cwd directory (set (excludeDir options))
       (DEFAULT_LOCKFILES \<union> set (excludeFile options)) (set (toTxt options))"

definition concat_action ::
  "(string list \<Rightarrow> ignore) \<Rightarrow> filesystem \<Rightarrow> string \<Rightarrow> string option \<Rightarrow> options
     \<Rightarrow> error + string \<times> string" where
  "concat_action ignore_add fs cwd directory options =
     concatenateFiles ignore_add fs cwd directory (set (excludeDir options))
       (DEFAULT_LOCKFILES \<union> set (excludeFile options))
       (if outputName options = [] then ''all.txt'' else outputName options)"

section \<open>Specification-level definitions\<close>

text \<open>
  The block that the specification describes for one file of the concatenated artifact: a
  line break, the header line, the content closed by a line break, or the error marker line
  when the file cannot be read.
\<close>

definition fileBlock :: "filesystem \<Rightarrow> string \<Rightarrow> string \<Rightarrow> string" where
  "fileBlock fs rootDir filePath =
     ''\<newline>'' @ ''=== '' @ path_relative rootDir filePath @ '' ==='' @ ''\<newline>''
     @ (case readFileSync fs filePath of
          Inr content \<Rightarrow>
            (if content \<noteq> [] \<and> last content = CHR ''\<newline>'' then content
             else content @ ''\<newline>'')
        | Inl message \<Rightarrow> ''[Error reading file: '' @ message @ '']'' @ ''\<newline>'')"

text \<open>
  A name as a directory listing returns it: not empty, without a separator, and neither
  \<open>.\<close> nor \<open>..\<close>.
\<close>

definition plain :: "string \<Rightarrow> bool" where
  "plain name \<longleftrightarrow> name \<noteq> [] \<and> path_sep \<notin> set name \<and> name \<noteq> ''.'' \<and> name \<noteq> ''..''"

text \<open>
  A tree as a file system holds it: every listing has names of that form, and no name
  twice.
\<close>

fun wf_node :: "node \<Rightarrow> bool"
and wf_entries :: "(string \<times> node) list \<Rightarrow> bool" where
  "wf_node (Dir entries) = wf_entries entries"
| "wf_node File = True"
| "wf_node (NoListDir m) = True"
| "wf_node Symlink = True"
| "wf_node Special = True"
| "wf_entries [] = True"
| "wf_entries ((name, entry) # rest) =
     (plain name \<and> name \<notin> fst ` set rest \<and> wf_node entry \<and> wf_entries rest)"

text \<open>The entry found by following the given names down from a node.\<close>

fun lookup_node :: "node \<Rightarrow> string list \<Rightarrow> node option"
and lookup_entries :: "(string \<times> node) list \<Rightarrow> string \<Rightarrow> string list \<Rightarrow> node option" where
  "lookup_node n [] = Some n"
| "lookup_node (Dir entries) (s # ss) = lookup_entries entries s ss"
| "lookup_node File (s # ss) = None"
| "lookup_node (NoListDir m) (s # ss) = None"
| "lookup_node Symlink (s # ss) = None"
| "lookup_node Special (s # ss) = None"
| "lookup_entries [] s ss = None"
| "lookup_entries ((name, entry) # rest) s ss =
     (if name = s then lookup_node entry ss else lookup_entries rest s ss)"

text \<open>
  The exclusion decision of the specification for one entry, given its name, its kind and
  its root-relative path: the entry is kept when no structural skip, no name set and no
  ignore pattern excludes it.
\<close>

definition kept :: "string \<Rightarrow> node \<Rightarrow> string \<Rightarrow> ignore \<Rightarrow> string set \<Rightarrow> string set \<Rightarrow> bool" where
  "kept name entry relativePath ig excludeDirs excludeFiles \<longleftrightarrow>
     name \<noteq> ''flatbrain'' \<and> name \<noteq> ''.git''
     \<and> \<not> (isDirectory entry \<and> name \<in> excludeDirs)
     \<and> \<not> (isFile entry \<and> name \<in> excludeFiles)
     \<and> ig relativePath = Inr False"

text \<open>
  The entry that the walk reaches by following the given names down from a node that lies
  at the relative path \<open>pre\<close>: every entry on the way, the last one included, has to be kept.
\<close>

fun reach_node ::
  "node \<Rightarrow> string list \<Rightarrow> string list \<Rightarrow> ignore \<Rightarrow> string set \<Rightarrow> string set \<Rightarrow> node option"
and reach_entries ::
  "(string \<times> node) list \<Rightarrow> string list \<Rightarrow> string \<Rightarrow> string list \<Rightarrow> ignore \<Rightarrow> string set \<Rightarrow> string set
     \<Rightarrow> node option" where
  "reach_node n pre [] ig exD exF = Some n"
| "reach_node (Dir entries) pre (s # ss) ig exD exF = reach_entries entries pre s ss ig exD exF"
| "reach_node File pre (s # ss) ig exD exF = None"
| "reach_node (NoListDir m) pre (s # ss) ig exD exF = None"
| "reach_node Symlink pre (s # ss) ig exD exF = None"
| "reach_node Special pre (s # ss) ig exD exF = None"
| "reach_entries [] pre s ss ig exD exF = None"
| "reach_entries ((name, entry) # rest) pre s ss ig exD exF =
     (if name = s then
        (if kept name entry (join_with [path_sep] (pre @ [s])) ig exD exF
         then reach_node entry (pre @ [s]) ss ig exD exF else None)
      else reach_entries rest pre s ss ig exD exF)"

text \<open>A tree in which no name contains the character that replaces the separator.\<close>

fun caret_free_node :: "node \<Rightarrow> bool"
and caret_free_entries :: "(string \<times> node) list \<Rightarrow> bool" where
  "caret_free_node (Dir entries) = caret_free_entries entries"
| "caret_free_node File = True"
| "caret_free_node (NoListDir m) = True"
| "caret_free_node Symlink = True"
| "caret_free_node Special = True"
| "caret_free_entries [] = True"
| "caret_free_entries ((name, entry) # rest) =
     (CHR ''^'' \<notin> set name \<and> caret_free_node entry \<and> caret_free_entries rest)"

section \<open>Example inputs\<close>

text \<open>An \<open>ignore\<close> package whose instances exclude nothing, whatever the patterns.\<close>

definition ignore_nothing :: "string list \<Rightarrow> ignore" where
  "ignore_nothing patterns path = Inr False"

text \<open>
  The root \<open>/r\<close> of the specification's example: \<open>src/a.js\<close> holding \<open>hello\<close> and \<open>b.txt\<close>
  holding \<open>world\<close>, listed in that order, and no ignore file.
\<close>

definition example_tree :: node where
  "example_tree = Dir [(''src'', Dir [(''a.js'', File)]), (''b.txt'', File)]"

definition example_fs :: filesystem where
  "example_fs =
     \<lparr> existsSync = (\<lambda>p. p = ''/r''),
       lstatSync = (\<lambda>p. if p = ''/r'' then Inr example_tree else Inl ''ENOENT''),
       readBytes = (\<lambda>p. if p = ''/r/src/a.js'' then Inr ''hello''
                          else if p = ''/r/b.txt'' then Inr ''world''
                          else Inl ''ENOENT''),
       copyFileSync = (\<lambda>src dest. None),
       mkdirSync = (\<lambda>p. None),
       rmSync = (\<lambda>p. None) \<rparr>"

text \<open>An instance of that package with no patterns added.\<close>

definition ignore_none :: ignore where
  "ignore_none = ignore_nothing []"

text \<open>A root with an excluded directory that holds a file no rule excludes.\<close>

definition modules_tree :: node where
  "modules_tree = Dir [(''node_modules'', Dir [(''x.js'', File)]), (''b.txt'', File)]"

text \<open>A root with a symbolic link, and a root with a directory that cannot be listed.\<close>

definition link_tree :: node where
  "link_tree = Dir [(''link'', Symlink), (''b.txt'', File)]"

definition locked_tree :: node where
  "locked_tree = Dir [(''a.txt'', File), (''secret'', NoListDir ''EACCES: permission denied''),
                      (''b.txt'', File)]"

text \<open>
  A file system with the given tree at \<open>/r\<close>, in which no file can be read and the file
  \<open>/r/locked\<close> cannot be copied.
\<close>

definition rooted_fs :: "node \<Rightarrow> filesystem" where
  "rooted_fs root =
     \<lparr> existsSync = (\<lambda>p. p = ''/r''),
       lstatSync = (\<lambda>p. if p = ''/r'' then Inr root else Inl ''ENOENT''),
       readBytes = (\<lambda>p. Inl ''EACCES: permission denied''),
       copyFileSync = (\<lambda>src dest. if src = ''/r/locked'' then Some ''EACCES: permission denied''
                                    else None),
       mkdirSync = (\<lambda>p. None),
       rmSync = (\<lambda>p. None) \<rparr>"

text \<open>
  A root with lock files at two depths, a root in which two files flatten to one name, and
  the options of a command line without any.
\<close>

definition lock_tree :: node where
  "lock_tree = Dir [(''yarn.lock'', File),
                    (''sub'', Dir [(''package-lock.json'', File), (''a.js'', File)]),
                    (''b.txt'', File)]"

definition collision_tree :: node where
  "collision_tree = Dir [(''a^b.txt'', File), (''a'', Dir [(''b.txt'', File)])]"

definition no_options :: options where
  "no_options = \<lparr> excludeDir = [], excludeFile = [], toTxt = [], outputName = ''all.txt'' \<rparr>"




text \<open>
  A root with two files whose names have no extension, and the options of
  \<open>--toTxt ""\<close>; the root of the specification's example for \<open>toTxt\<close>, and the options of
  \<open>--toTxt .ext\<close>.
\<close>

definition makefile_tree :: node where
  "makefile_tree = Dir [(''Makefile'', File), (''LICENSE'', File), (''a.js'', File)]"

definition toTxt_empty :: options where
  "toTxt_empty = \<lparr> excludeDir = [], excludeFile = [], toTxt = [''''], outputName = ''all.txt'' \<rparr>"

definition ext_tree :: node where
  "ext_tree = Dir [(''a'', Dir [(''b'', Dir [(''c.ext'', File)])]), (''d.js'', File)]"

definition toTxt_ext :: options where
  "toTxt_ext = \<lparr> excludeDir = [], excludeFile = [], toTxt = [''.ext''], outputName = ''all.txt'' \<rparr>"

section \<open>Auxiliary facts\<close>

lemmas path_eval =
  path_join_def path_normalize_def path_relative_def path_resolve_def resolvedSegments_def
  abs_path_def path_sep_def rootDirOf_def

lemmas run_eval =
  flattenProject_def concatenateFiles_def freshFlattenedDir_def ensureConcatDir_def
  loadGitignore_def Let_def

lemmas read_eval = readFileSync_def utf8_decode_def utf8_lead_def replacement_def

lemma endsWith_newline:
  "endsWith content ''\<newline>'' \<longleftrightarrow> content \<noteq> [] \<and> last content = CHR ''\<newline>''"
proof (cases content rule: rev_cases)
  case Nil
  then show ?thesis by (simp add: endsWith_def)
next
  case (snoc ys y)
  then show ?thesis by (auto simp: endsWith_def)
qed

lemma writeFiles_blocks:
  "writeFiles fs filePaths rootDir written =
     written @ concat (map (fileBlock fs rootDir) filePaths)"
proof (induction filePaths arbitrary: written)
  case Nil
  show ?case by simp
next
  case (Cons p ps)
  show ?case
    by (simp add: Cons.IH fileBlock_def endsWith_newline split: sum.splits)
qed

lemma example_concat:
  "concatenateFiles ignore_nothing example_fs ''/x'' (Some ''/r'') {} {} ''all.txt''
     = Inr (''/r/flatbrain/concat/all.txt'',
            ''\<newline>=== src/a.js ===\<newline>hello\<newline>\<newline>=== b.txt ===\<newline>world\<newline>'')"
  by (simp add: run_eval example_fs_def read_eval example_tree_def
      ignore_nothing_def path_eval endsWith_def)

lemma walkEntries_append:
  "walkEntries (xs @ ys) dirPath fileList rootDir ig excludeDirs excludeFiles =
     (case walkEntries xs dirPath fileList rootDir ig excludeDirs excludeFiles of
        Inl e \<Rightarrow> Inl e
      | Inr fileList' \<Rightarrow> walkEntries ys dirPath fileList' rootDir ig excludeDirs excludeFiles)"
proof (induction xs arbitrary: fileList)
  case Nil
  show ?case by simp
next
  case (Cons x xs)
  obtain name entry where x: "x = (name, entry)" by (cases x)
  show ?case
    unfolding x by (simp add: Cons.IH split: sum.splits bool.splits)
qed

lemma split_on_nonempty: "split_on c xs \<noteq> []"
  by (induction xs) (auto split: list.splits)

lemma split_on_no_sep: "c \<notin> set s \<Longrightarrow> split_on c s = [s]"
  by (induction s) auto

lemma split_on_append_sep: "split_on c (a @ c # b) = split_on c a @ split_on c b"
proof (induction a)
  case Nil
  show ?case by simp
next
  case (Cons x a)
  show ?case
  proof (cases "split_on c a")
    case Nil
    then show ?thesis using split_on_nonempty [of c a] by simp
  next
    case (Cons s ss)
    then show ?thesis using Cons.IH by simp
  qed
qed

lemma join_with_Cons:
  "join_with sep (s # ss) = (if ss = [] then s else s @ sep @ join_with sep ss)"
  by (cases ss) auto

lemma split_on_join:
  "list_all (\<lambda>s. c \<notin> set s) segs \<Longrightarrow> segs \<noteq> [] \<Longrightarrow> split_on c (join_with [c] segs) = segs"
proof (induction segs)
  case Nil
  then show ?case by simp
next
  case (Cons s ss)
  show ?case
  proof (cases "ss = []")
    case True
    with Cons.prems show ?thesis by (simp add: split_on_no_sep)
  next
    case False
    with Cons show ?thesis
      using split_on_append_sep [of c s "join_with [c] ss"]
      by (simp add: join_with_Cons split_on_no_sep del: join_with.simps)
  qed
qed

lemma normalizeString_plain:
  "list_all plain segs \<Longrightarrow> normalizeString b acc segs = rev acc @ segs"
  by (induction segs arbitrary: acc) (auto simp: plain_def)

lemma plain_no_sep: "list_all plain segs \<Longrightarrow> list_all (\<lambda>s. path_sep \<notin> set s) segs"
  by (induction segs) (auto simp: plain_def)

lemma resolvedSegments_abs_path:
  assumes "list_all plain segs"
  shows "resolvedSegments (abs_path segs) = segs"
proof (cases "segs = []")
  case True
  then show ?thesis by (simp add: resolvedSegments_def abs_path_def)
next
  case False
  with assms have "split_on path_sep (join_with [path_sep] segs) = segs"
    by (simp add: split_on_join plain_no_sep)
  then show ?thesis
    using assms by (simp add: resolvedSegments_def abs_path_def normalizeString_plain)
qed

lemma abs_path_inject:
  "list_all plain xs \<Longrightarrow> list_all plain ys \<Longrightarrow> abs_path xs = abs_path ys \<Longrightarrow> xs = ys"
  by (metis resolvedSegments_abs_path)

lemma join_with_snoc:
  "segs \<noteq> [] \<Longrightarrow> join_with sep (segs @ [name]) = join_with sep segs @ sep @ name"
  by (induction segs) (auto simp: join_with_Cons simp del: join_with.simps)

lemma join_with_nonempty: "name \<noteq> [] \<Longrightarrow> join_with sep (segs @ [name]) \<noteq> []"
  by (induction segs) (auto simp: join_with_Cons simp del: join_with.simps)

lemma path_join_abs_path:
  assumes "list_all plain segs" and "plain name"
  shows "path_join (abs_path segs) name = abs_path (segs @ [name])"
proof -
  have name: "name \<noteq> []" "path_sep \<notin> set name"
    using assms(2) by (auto simp: plain_def)
  have last_name: "last name \<noteq> path_sep"
    using name last_in_set [of name] by metis
  let ?p = "abs_path segs @ [path_sep] @ name"
  have all: "list_all plain (segs @ [name])" using assms by simp
  have "split_on path_sep ?p = split_on path_sep (abs_path segs) @ [name]"
    using split_on_append_sep [of path_sep "abs_path segs" name] name
    by (simp add: split_on_no_sep)
  then have "normalizeString False [] (split_on path_sep ?p)
             = resolvedSegments (abs_path (segs @ [name]))"
  proof (cases "segs = []")
    case True
    then show ?thesis using name assms(2)
      by (simp add: resolvedSegments_def abs_path_def split_on_no_sep plain_def)
  next
    case False
    have "split_on path_sep (abs_path (segs @ [name])) = split_on path_sep (abs_path segs) @ [name]"
      using False split_on_append_sep [of path_sep "abs_path segs" name] name
      by (simp add: abs_path_def join_with_snoc split_on_no_sep)
    then show ?thesis
      using \<open>split_on path_sep ?p = split_on path_sep (abs_path segs) @ [name]\<close>
      by (simp add: resolvedSegments_def)
  qed
  then have segs: "normalizeString False [] (split_on path_sep ?p) = segs @ [name]"
    using all by (simp add: resolvedSegments_abs_path)
  have hd: "hd ?p = path_sep" by (simp add: abs_path_def)
  have last: "last ?p \<noteq> path_sep" using name last_name by simp
  have ne: "join_with [path_sep] (segs @ [name]) \<noteq> []"
    using name by (simp add: join_with_nonempty)
  show ?thesis
    using name hd last ne segs
    by (simp add: path_join_def path_normalize_def Let_def abs_path_def)
qed

lemma dropCommon_append: "dropCommon xs (xs @ ys) = ([], ys)"
  by (induction xs) auto

lemma path_relative_abs_path:
  assumes "list_all plain root" and "list_all plain segs"
  shows "path_relative (abs_path root) (abs_path (root @ segs)) = join_with [path_sep] segs"
  using assms by (simp add: path_relative_def resolvedSegments_abs_path dropCommon_append)

lemma split_on_abs_path:
  "list_all plain segs \<Longrightarrow> segs \<noteq> [] \<Longrightarrow> split_on path_sep (abs_path segs) = [] # segs"
  by (simp add: abs_path_def split_on_join plain_no_sep)

lemma abs_path_prefix:
  assumes "list_all plain ds" and "list_all plain s"
    and "prefix (abs_path ds @ [path_sep]) (abs_path s)"
  shows "\<exists>t. t \<noteq> [] \<and> s = ds @ t"
proof -
  from assms(3) obtain rest where rest: "abs_path s = abs_path ds @ path_sep # rest"
    by (auto simp: prefix_def)
  have s_ne: "s \<noteq> []"
  proof
    assume "s = []"
    with rest show False by (simp add: abs_path_def)
  qed
  show ?thesis
  proof (cases "ds = []")
    case True
    with s_ne show ?thesis by simp
  next
    case False
    have "split_on path_sep (abs_path s) = split_on path_sep (abs_path ds) @ split_on path_sep rest"
      unfolding rest by (rule split_on_append_sep)
    then have "[] # s = ([] # ds) @ split_on path_sep rest"
      using assms(1,2) s_ne False by (simp add: split_on_abs_path)
    then have "s = ds @ split_on path_sep rest" by simp
    then show ?thesis using split_on_nonempty [of path_sep rest] by blast
  qed
qed


lemma reach_entries_name:
  "reach_entries es pre s ss ig exD exF = Some m \<Longrightarrow> s \<in> fst ` set es"
  by (induction es) (auto split: if_splits)

lemma walkEntries_kept_step:
  assumes "name \<noteq> ''flatbrain''" and "name \<noteq> ''.git''"
    and "\<not> (isDirectory entry \<and> name \<in> excludeDirs)"
    and "\<not> (isFile entry \<and> name \<in> excludeFiles)"
    and "ig (path_relative rootDir (path_join dirPath name)) = Inr False"
  shows "walkEntries ((name, entry) # rest) dirPath fileList rootDir ig excludeDirs excludeFiles =
           (if isDirectory entry then
              (case walkDirectory entry (path_join dirPath name) fileList rootDir ig
                      excludeDirs excludeFiles of
                 Inl e \<Rightarrow> Inl e
               | Inr fileList' \<Rightarrow>
                   walkEntries rest dirPath fileList' rootDir ig excludeDirs excludeFiles)
            else
              walkEntries rest dirPath (fileList @ [path_join dirPath name]) rootDir ig
                excludeDirs excludeFiles)"
  by (simp add: assms)

lemma walkEntries_Cons_Inr [consumes 1, case_names skip dir leaf]:
  assumes "walkEntries ((name, entry) # rest) dirPath fl rootDir ig exD exF = Inr out"
    and skip: "\<not> kept name entry (path_relative rootDir (path_join dirPath name)) ig exD exF \<Longrightarrow>
         walkEntries rest dirPath fl rootDir ig exD exF = Inr out \<Longrightarrow> thesis"
    and dir: "\<And>fl'. kept name entry (path_relative rootDir (path_join dirPath name)) ig exD exF \<Longrightarrow>
         isDirectory entry \<Longrightarrow>
         walkDirectory entry (path_join dirPath name) fl rootDir ig exD exF = Inr fl' \<Longrightarrow>
         walkEntries rest dirPath fl' rootDir ig exD exF = Inr out \<Longrightarrow> thesis"
    and leaf: "kept name entry (path_relative rootDir (path_join dirPath name)) ig exD exF \<Longrightarrow>
         \<not> isDirectory entry \<Longrightarrow>
         walkEntries rest dirPath (fl @ [path_join dirPath name]) rootDir ig exD exF = Inr out \<Longrightarrow>
         thesis"
  shows thesis
proof (cases "kept name entry (path_relative rootDir (path_join dirPath name)) ig exD exF")
  case True
  then have k: "name \<noteq> ''flatbrain''" "name \<noteq> ''.git''"
    "\<not> (isDirectory entry \<and> name \<in> exD)" "\<not> (isFile entry \<and> name \<in> exF)"
    "ig (path_relative rootDir (path_join dirPath name)) = Inr False"
    by (simp_all add: kept_def)
  note step = walkEntries_kept_step [of name entry exD exF ig rootDir dirPath rest fl, OF k]
  show ?thesis
  proof (cases "isDirectory entry")
    case d: True
    with assms(1) [unfolded step] obtain fl' where
      "walkDirectory entry (path_join dirPath name) fl rootDir ig exD exF = Inr fl'"
      "walkEntries rest dirPath fl' rootDir ig exD exF = Inr out"
      by (auto split: sum.splits)
    with True d show ?thesis by (rule dir)
  next
    case False
    with assms(1) [unfolded step]
    have "walkEntries rest dirPath (fl @ [path_join dirPath name]) rootDir ig exD exF = Inr out"
      by simp
    with True False show ?thesis by (rule leaf)
  qed
next
  case False
  with assms(1) have "walkEntries rest dirPath fl rootDir ig exD exF = Inr out"
    by (auto simp: kept_def split: if_splits sum.splits bool.splits)
  with False show ?thesis by (rule skip)
qed

lemma walk_segments:
  assumes R: "list_all plain R"
  shows "walkDirectory n (abs_path (R @ pre)) fl (abs_path R) ig exD exF = Inr out \<Longrightarrow>
           list_all plain pre \<Longrightarrow> wf_node n \<Longrightarrow>
           \<exists>L. out = fl @ map (\<lambda>ss. abs_path (R @ pre @ ss)) L \<and> distinct L
             \<and> (\<forall>ss\<in>set L. ss \<noteq> []
                    \<and> (\<exists>m. reach_node n pre ss ig exD exF = Some m \<and> \<not> isDirectory m))"
    and "walkEntries es (abs_path (R @ pre)) fl (abs_path R) ig exD exF = Inr out \<Longrightarrow>
           list_all plain pre \<Longrightarrow> wf_entries es \<Longrightarrow>
           \<exists>L. out = fl @ map (\<lambda>ss. abs_path (R @ pre @ ss)) L \<and> distinct L
             \<and> (\<forall>ss\<in>set L. \<exists>s t m. ss = s # t
                    \<and> reach_entries es pre s t ig exD exF = Some m \<and> \<not> isDirectory m)"
proof (induction n and es arbitrary: pre fl out and pre fl out rule: wf_node_wf_entries.induct)
  case (1 entries)
  from "1.IH" [of pre fl out] "1.prems"
  obtain L where L: "out = fl @ map (\<lambda>ss. abs_path (R @ pre @ ss)) L" "distinct L"
    "\<forall>ss\<in>set L. \<exists>s t m. ss = s # t
        \<and> reach_entries entries pre s t ig exD exF = Some m \<and> \<not> isDirectory m"
    by auto
  have "ss \<noteq> [] \<and> (\<exists>m. reach_node (Dir entries) pre ss ig exD exF = Some m \<and> \<not> isDirectory m)"
    if "ss \<in> set L" for ss
  proof -
    from L(3) that obtain s t m where "ss = s # t"
      "reach_entries entries pre s t ig exD exF = Some m" "\<not> isDirectory m"
      by blast
    then show ?thesis by auto
  qed
  with L(1,2) show ?case by blast
next
  case 2
  then show ?case by simp
next
  case (3 m)
  then show ?case by simp
next
  case 4
  then show ?case by simp
next
  case 5
  then show ?case by simp
next
  case 6
  then show ?case by simp
next
  case (7 name entry rest)
  have wf: "plain name" "name \<notin> fst ` set rest" "wf_node entry" "wf_entries rest"
    using "7.prems"(3) by auto
  have full: "path_join (abs_path (R @ pre)) name = abs_path (R @ (pre @ [name]))"
    using "7.prems"(2) R wf(1) path_join_abs_path [of "R @ pre" name] by simp
  have rel: "path_relative (abs_path R) (path_join (abs_path (R @ pre)) name)
               = join_with [path_sep] (pre @ [name])"
    unfolding full using "7.prems"(2) R wf(1) path_relative_abs_path [of R "pre @ [name]"] by simp
  have pl: "list_all plain (pre @ [name])" using "7.prems"(2) wf(1) by simp
  let ?G = "\<lambda>es ss. \<exists>s t m. ss = s # t
              \<and> reach_entries es pre s t ig exD exF = Some m \<and> \<not> isDirectory m"
  have lift: "?G ((name, entry) # rest) ss \<and> hd ss \<noteq> name" if "?G rest ss" for ss
  proof -
    from that obtain s t m where h: "ss = s # t"
      "reach_entries rest pre s t ig exD exF = Some m" "\<not> isDirectory m"
      by blast
    from h(2) have "s \<in> fst ` set rest" by (rule reach_entries_name)
    with wf(2) have "name \<noteq> s" by blast
    with h show ?thesis by auto
  qed
  from "7.prems"(1) show ?case
  proof (cases rule: walkEntries_Cons_Inr)
    case skip
    from "7.IH"(2) [OF skip(2) "7.prems"(2) wf(4)] obtain L where
      L: "out = fl @ map (\<lambda>ss. abs_path (R @ pre @ ss)) L" "distinct L"
      "\<forall>ss\<in>set L. ?G rest ss" by blast
    have "\<forall>ss\<in>set L. ?G ((name, entry) # rest) ss"
    proof
      fix ss assume "ss \<in> set L"
      with L(3) have "?G rest ss" by blast
      from lift [OF this] show "?G ((name, entry) # rest) ss" by blast
    qed
    with L(1,2) show ?thesis by blast
  next
    case (dir fl')
    from dir(1) rel have keep: "kept name entry (join_with [path_sep] (pre @ [name])) ig exD exF"
      by simp
    from "7.IH"(1) [OF dir(3) [unfolded full] pl wf(3)] obtain L1 where
      L1: "fl' = fl @ map (\<lambda>ss. abs_path (R @ (pre @ [name]) @ ss)) L1" "distinct L1"
      "\<forall>ss\<in>set L1. ss \<noteq> []
          \<and> (\<exists>m. reach_node entry (pre @ [name]) ss ig exD exF = Some m \<and> \<not> isDirectory m)"
      by blast
    from "7.IH"(2) [OF dir(4) "7.prems"(2) wf(4)] obtain L2 where
      L2: "out = fl' @ map (\<lambda>ss. abs_path (R @ pre @ ss)) L2" "distinct L2"
      "\<forall>ss\<in>set L2. ?G rest ss" by blast
    let ?L = "map ((#) name) L1 @ L2"
    have out: "out = fl @ map (\<lambda>ss. abs_path (R @ pre @ ss)) ?L"
      using L1(1) L2(1) by (simp add: comp_def)
    have hd2: "hd ss \<noteq> name" if "ss \<in> set L2" for ss
      using L2(3) that lift by blast
    have "distinct (map ((#) name) L1)" using L1(2) by (simp add: distinct_map inj_on_def)
    moreover have "set (map ((#) name) L1) \<inter> set L2 = {}" using hd2 by fastforce
    ultimately have dist: "distinct ?L" using L2(2) by simp
    have "\<forall>ss\<in>set ?L. ?G ((name, entry) # rest) ss"
    proof
      fix ss assume "ss \<in> set ?L"
      then consider t where "ss = name # t" "t \<in> set L1" | "ss \<in> set L2" by auto
      then show "?G ((name, entry) # rest) ss"
      proof cases
        case 1
        with L1(3) obtain m where
          "reach_node entry (pre @ [name]) t ig exD exF = Some m" "\<not> isDirectory m" by blast
        with 1(1) keep show ?thesis
          by (intro exI [of _ name] exI [of _ t] exI [of _ m]) simp
      next
        case 2
        with L2(3) have "?G rest ss" by blast
        from lift [OF this] show ?thesis by blast
      qed
    qed
    with out dist show ?thesis by blast
  next
    case leaf
    from leaf(1) rel have keep: "kept name entry (join_with [path_sep] (pre @ [name])) ig exD exF"
      by simp
    from "7.IH"(2) [OF leaf(3) "7.prems"(2) wf(4)] obtain L2 where
      L2: "out = (fl @ [path_join (abs_path (R @ pre)) name])
                 @ map (\<lambda>ss. abs_path (R @ pre @ ss)) L2" "distinct L2"
      "\<forall>ss\<in>set L2. ?G rest ss" by blast
    let ?L = "[name] # L2"
    have out: "out = fl @ map (\<lambda>ss. abs_path (R @ pre @ ss)) ?L"
      using L2(1) full by simp
    have hd2: "hd ss \<noteq> name" if "ss \<in> set L2" for ss
      using L2(3) that lift by blast
    have "[name] \<notin> set L2" using hd2 by force
    with L2(2) have dist: "distinct ?L" by simp
    have "\<forall>ss\<in>set ?L. ?G ((name, entry) # rest) ss"
    proof
      fix ss assume "ss \<in> set ?L"
      then consider "ss = [name]" | "ss \<in> set L2" by auto
      then show "?G ((name, entry) # rest) ss"
      proof cases
        case 1
        with keep leaf(2) show ?thesis
          by (intro exI [of _ name] exI [of _ "[]"] exI [of _ entry]) simp
      next
        case 2
        with L2(3) have "?G rest ss" by blast
        from lift [OF this] show ?thesis by blast
      qed
    qed
    with out dist show ?thesis by blast
  qed
qed

lemma reach_plain:
  "reach_node n pre ss ig exD exF = Some m \<Longrightarrow> wf_node n \<Longrightarrow> list_all plain ss"
  "reach_entries es pre s ss ig exD exF = Some m \<Longrightarrow> wf_entries es \<Longrightarrow> plain s \<and> list_all plain ss"
  by (induction n pre ss ig exD exF and es pre s ss ig exD exF
      rule: reach_node_reach_entries.induct) (auto split: if_splits)

lemma lookup_plain:
  "lookup_node n ss = Some m \<Longrightarrow> wf_node n \<Longrightarrow> list_all plain ss"
  "lookup_entries es s ss = Some m \<Longrightarrow> wf_entries es \<Longrightarrow> plain s \<and> list_all plain ss"
  by (induction n ss and es s ss rule: lookup_node_lookup_entries.induct)
     (auto split: if_splits)

lemma reach_lookup:
  "reach_node n pre ss ig exD exF = Some m \<Longrightarrow> lookup_node n ss = Some m"
  "reach_entries es pre s ss ig exD exF = Some m \<Longrightarrow> lookup_entries es s ss = Some m"
  by (induction n pre ss ig exD exF and es pre s ss ig exD exF
      rule: reach_node_reach_entries.induct) (auto split: if_splits)

lemma reach_entries_entry:
  assumes "reach_entries es pre s ss ig exD exF = Some m"
  shows "\<exists>entry. (s, entry) \<in> set es \<and> kept s entry (join_with [path_sep] (pre @ [s])) ig exD exF
            \<and> (\<forall>ss'. reach_entries es pre s ss' ig exD exF
                        = reach_node entry (pre @ [s]) ss' ig exD exF)"
  using assms
proof (induction es)
  case Nil
  then show ?case by simp
next
  case (Cons e es)
  obtain name entry where e: "e = (name, entry)" by (cases e)
  show ?case
  proof (cases "name = s")
    case True
    with Cons.prems e show ?thesis
      by (intro exI [of _ entry]) (auto split: if_splits)
  next
    case False
    with Cons e show ?thesis by auto
  qed
qed

lemma reach_node_Cons:
  assumes "reach_node n pre (s # ss) ig exD exF = Some m"
  shows "\<exists>es entry. n = Dir es \<and> (s, entry) \<in> set es
           \<and> kept s entry (join_with [path_sep] (pre @ [s])) ig exD exF
           \<and> (\<forall>ss'. reach_node n pre (s # ss') ig exD exF
                       = reach_node entry (pre @ [s]) ss' ig exD exF)"
proof (cases n)
  case (Dir es)
  with assms have "reach_entries es pre s ss ig exD exF = Some m" by simp
  from reach_entries_entry [OF this] Dir show ?thesis by auto
qed (use assms in simp_all)

lemma reach_split:
  "reach_node n pre (ds @ t) ig exD exF = Some m \<Longrightarrow>
     \<exists>d. reach_node n pre ds ig exD exF = Some d \<and> reach_node d (pre @ ds) t ig exD exF = Some m"
proof (induction ds arbitrary: n pre)
  case Nil
  then show ?case by simp
next
  case (Cons s ds)
  from Cons.prems have r: "reach_node n pre (s # (ds @ t)) ig exD exF = Some m" by simp
  from reach_node_Cons [OF r] obtain es entry where
    eq: "\<forall>ss'. reach_node n pre (s # ss') ig exD exF = reach_node entry (pre @ [s]) ss' ig exD exF"
    by blast
  with r have "reach_node entry (pre @ [s]) (ds @ t) ig exD exF = Some m" by simp
  from Cons.IH [OF this] obtain d where
    "reach_node entry (pre @ [s]) ds ig exD exF = Some d"
    "reach_node d ((pre @ [s]) @ ds) t ig exD exF = Some m" by blast
  with eq show ?case by simp
qed

lemma reach_last_kept:
  "ds \<noteq> [] \<Longrightarrow> reach_node n pre ds ig exD exF = Some d \<Longrightarrow>
     kept (last ds) d (join_with [path_sep] (pre @ ds)) ig exD exF"
proof (induction ds arbitrary: n pre)
  case Nil
  then show ?case by simp
next
  case (Cons s ds)
  from reach_node_Cons [OF Cons.prems(2)] obtain es entry where
    k: "kept s entry (join_with [path_sep] (pre @ [s])) ig exD exF"
    and eq: "\<forall>ss'. reach_node n pre (s # ss') ig exD exF = reach_node entry (pre @ [s]) ss' ig exD exF"
    by blast
  from eq Cons.prems(2) have r: "reach_node entry (pre @ [s]) ds ig exD exF = Some d" by simp
  show ?case
  proof (cases "ds = []")
    case True
    with r k show ?thesis by simp
  next
    case False
    from Cons.IH [OF False r] False show ?thesis by simp
  qed
qed

lemma walk_listable:
  assumes R: "list_all plain R"
  shows "walkDirectory n (abs_path (R @ pre)) fl (abs_path R) ig exD exF = Inr out \<Longrightarrow>
           list_all plain pre \<Longrightarrow> wf_node n \<Longrightarrow>
           reach_node n pre ss ig exD exF = Some d \<Longrightarrow> isDirectory d \<Longrightarrow> \<exists>l. d = Dir l"
    and "walkEntries es (abs_path (R @ pre)) fl (abs_path R) ig exD exF = Inr out \<Longrightarrow>
           list_all plain pre \<Longrightarrow> wf_entries es \<Longrightarrow>
           reach_entries es pre s ss ig exD exF = Some d \<Longrightarrow> isDirectory d \<Longrightarrow> \<exists>l. d = Dir l"
proof (induction n and es arbitrary: pre fl out ss d and pre fl out s ss d
    rule: wf_node_wf_entries.induct)
  case (1 entries)
  show ?case
  proof (cases ss)
    case Nil
    with "1.prems"(4) show ?thesis by auto
  next
    case (Cons s ss')
    with "1.prems" show ?thesis using "1.IH" [of pre fl out s ss' d] by simp
  qed
next
  case 2
  then show ?case by simp
next
  case (3 m)
  then show ?case by simp
next
  case 4
  then show ?case by simp
next
  case 5
  then show ?case by simp
next
  case 6
  then show ?case by simp
next
  case (7 name entry rest)
  have wf: "plain name" "wf_node entry" "wf_entries rest" using "7.prems"(3) by auto
  have full: "path_join (abs_path (R @ pre)) name = abs_path (R @ (pre @ [name]))"
    using "7.prems"(2) R wf(1) path_join_abs_path [of "R @ pre" name] by simp
  have rel: "path_relative (abs_path R) (path_join (abs_path (R @ pre)) name)
               = join_with [path_sep] (pre @ [name])"
    unfolding full using "7.prems"(2) R wf(1) path_relative_abs_path [of R "pre @ [name]"] by simp
  have pl: "list_all plain (pre @ [name])" using "7.prems"(2) wf(1) by simp
  show ?case
  proof (cases "name = s")
    case False
    with "7.prems"(4) have r: "reach_entries rest pre s ss ig exD exF = Some d" by simp
    from "7.prems"(1) show ?thesis
    proof (cases rule: walkEntries_Cons_Inr)
      case skip
      from "7.IH"(2) [OF skip(2) "7.prems"(2) wf(3) r "7.prems"(5)] show ?thesis .
    next
      case (dir fl')
      from "7.IH"(2) [OF dir(4) "7.prems"(2) wf(3) r "7.prems"(5)] show ?thesis .
    next
      case leaf
      from "7.IH"(2) [OF leaf(3) "7.prems"(2) wf(3) r "7.prems"(5)] show ?thesis .
    qed
  next
    case True
    with "7.prems"(4) have k: "kept name entry (join_with [path_sep] (pre @ [name])) ig exD exF"
      and r: "reach_node entry (pre @ [name]) ss ig exD exF = Some d"
      by (auto split: if_splits)
    from "7.prems"(1) show ?thesis
    proof (cases rule: walkEntries_Cons_Inr)
      case skip
      with k rel show ?thesis by simp
    next
      case (dir fl')
      from dir(3) have "walkDirectory entry (abs_path (R @ (pre @ [name]))) fl (abs_path R) ig exD exF = Inr fl'"
        unfolding full .
      from "7.IH"(1) [OF this pl wf(2) r "7.prems"(5)] show ?thesis .
    next
      case leaf
      show ?thesis
      proof (cases ss)
        case Nil
        with r leaf(2) "7.prems"(5) show ?thesis by simp
      next
        case (Cons a as)
        with r leaf(2) show ?thesis by (cases entry) simp_all
      qed
    qed
  qed
qed


lemma walk_Dir_reach:
  assumes R: "list_all plain R" and wf: "wf_node root"
    and walk: "walkDirectory root (abs_path R) [] (abs_path R) ig exD exF = Inr files"
    and p: "p \<in> set files"
  shows "\<exists>ss m. ss \<noteq> [] \<and> list_all plain ss \<and> p = abs_path (R @ ss)
           \<and> reach_node root [] ss ig exD exF = Some m \<and> \<not> isDirectory m"
proof -
  have "walkDirectory root (abs_path (R @ [])) [] (abs_path R) ig exD exF = Inr files"
    using walk by simp
  from walk_segments(1) [OF R this _ wf] obtain L where
    L: "files = map (\<lambda>ss. abs_path (R @ ss)) L"
    "\<forall>ss\<in>set L. ss \<noteq> [] \<and> (\<exists>m. reach_node root [] ss ig exD exF = Some m \<and> \<not> isDirectory m)"
    by auto
  from p L(1) obtain ss where ss: "ss \<in> set L" "p = abs_path (R @ ss)" by auto
  with L(2) obtain m where h: "ss \<noteq> []"
    "reach_node root [] ss ig exD exF = Some m" "\<not> isDirectory m"
    by blast
  from reach_plain(1) [OF h(2) wf] h ss(2) show ?thesis by blast
qed

lemma reach_caret_free:
  "reach_node n pre ss ig exD exF = Some m \<Longrightarrow> caret_free_node n \<Longrightarrow>
     list_all (\<lambda>s. CHR ''^'' \<notin> set s) ss"
  "reach_entries es pre s ss ig exD exF = Some m \<Longrightarrow> caret_free_entries es \<Longrightarrow>
     CHR ''^'' \<notin> set s \<and> list_all (\<lambda>s. CHR ''^'' \<notin> set s) ss"
  by (induction n pre ss ig exD exF and es pre s ss ig exD exF
      rule: reach_node_reach_entries.induct) (auto split: if_splits)

lemma join_caret_inject:
  assumes "list_all (\<lambda>s. CHR ''^'' \<notin> set s) xs" and "list_all (\<lambda>s. CHR ''^'' \<notin> set s) ys"
    and "xs \<noteq> []" and "ys \<noteq> []" and "join_with ''^'' xs = join_with ''^'' ys"
  shows "xs = ys"
proof -
  have a: "split_on (CHR ''^'') (join_with ''^'' xs) = xs"
    using assms(1,3) by (rule split_on_join)
  have b: "split_on (CHR ''^'') (join_with ''^'' ys) = ys"
    using assms(2,4) by (rule split_on_join)
  have "xs = split_on (CHR ''^'') (join_with ''^'' xs)" by (simp only: a)
  also have "\<dots> = split_on (CHR ''^'') (join_with ''^'' ys)" by (simp only: assms(5))
  also have "\<dots> = ys" by (rule b)
  finally show ?thesis .
qed

lemma path_of_entry:
  assumes "list_all plain R" and "list_all plain dsegs" and "dsegs \<noteq> []"
  shows "path_relative (abs_path R) (path_join (abs_path (R @ butlast dsegs)) (last dsegs))
           = join_with [path_sep] dsegs"
proof -
  have b: "list_all plain (butlast dsegs)" "plain (last dsegs)"
    using assms(2,3) in_set_butlastD [of _ dsegs] last_in_set [of dsegs]
    by (auto simp: list_all_iff)
  have "path_join (abs_path (R @ butlast dsegs)) (last dsegs)
          = abs_path ((R @ butlast dsegs) @ [last dsegs])"
    using assms(1) b by (intro path_join_abs_path) simp_all
  then show ?thesis
    using assms path_relative_abs_path [of R dsegs] by simp
qed

lemma modules_walk:
  "walkDirectory modules_tree ''/r'' [] ''/r'' ignore_none {''node_modules''} {} = Inr [''/r/b.txt'']"
  by (simp add: modules_tree_def ignore_none_def ignore_nothing_def path_eval)

lemma flatten_join:
  "list_all plain segs \<Longrightarrow>
     map (\<lambda>c. if c = path_sep then CHR ''^'' else c) (join_with [path_sep] segs)
       = join_with ''^'' segs"
proof (induction segs)
  case Nil
  show ?case by simp
next
  case (Cons s ss)
  from Cons.prems have "path_sep \<notin> set s" by (simp add: plain_def)
  then have "map (\<lambda>c. if c = path_sep then CHR ''^'' else c) s = s"
    by (induction s) auto
  with Cons show ?case
    by (cases "ss = []") (simp_all add: join_with_Cons del: join_with.simps)
qed

text \<open>
  In a tree without \<open>^\<close> in any name, the walk lists no file twice and no two walked files
  get the same flattened name.
\<close>

lemma flattened_names_distinct:
  assumes R: "list_all plain R" and wf: "wf_node root" and cf: "caret_free_node root"
    and walk: "walkDirectory root (abs_path R) [] (abs_path R) ig exD exF = Inr files"
  shows "distinct files"
    and "distinct (map (\<lambda>filePath. getFlattenedFileName filePath (abs_path R)) files)"
proof -
  have "walkDirectory root (abs_path (R @ [])) [] (abs_path R) ig exD exF = Inr files"
    using walk by simp
  from walk_segments(1) [OF R this _ wf] obtain L where
    L: "files = map (\<lambda>ss. abs_path (R @ ss)) L" "distinct L"
    "\<forall>ss\<in>set L. ss \<noteq> [] \<and> (\<exists>m. reach_node root [] ss ig exD exF = Some m \<and> \<not> isDirectory m)"
    by auto
  have props: "ss \<noteq> [] \<and> list_all plain ss \<and> list_all (\<lambda>s. CHR ''^'' \<notin> set s) ss"
    if "ss \<in> set L" for ss
  proof -
    from L(3) that obtain m where "ss \<noteq> []" "reach_node root [] ss ig exD exF = Some m"
      by blast
    with reach_plain(1) [OF this(2) wf] reach_caret_free(1) [OF this(2) cf] show ?thesis by simp
  qed
  have "inj_on (\<lambda>ss. abs_path (R @ ss)) (set L)"
  proof (rule inj_onI)
    fix xs ys assume "xs \<in> set L" "ys \<in> set L" "abs_path (R @ xs) = abs_path (R @ ys)"
    with props R have "R @ xs = R @ ys" by (intro abs_path_inject) simp_all
    then show "xs = ys" by simp
  qed
  with L(1,2) show "distinct files" by (simp add: distinct_map)
  have name: "getFlattenedFileName (abs_path (R @ ss)) (abs_path R) = join_with ''^'' ss"
    if "ss \<in> set L" for ss
    using props [OF that] R
    by (simp add: getFlattenedFileName_def path_relative_abs_path flatten_join)
  have "map (\<lambda>filePath. getFlattenedFileName filePath (abs_path R)) files
          = map (join_with ''^'') L"
    unfolding L(1) using name by (simp add: comp_def)
  moreover have "inj_on (join_with ''^'') (set L)"
  proof (rule inj_onI)
    fix xs ys assume "xs \<in> set L" "ys \<in> set L" "join_with ''^'' xs = join_with ''^'' ys"
    with props show "xs = ys" by (intro join_caret_inject) simp_all
  qed
  ultimately show "distinct (map (\<lambda>filePath. getFlattenedFileName filePath (abs_path R)) files)"
    using L(2) by (simp add: distinct_map)
qed

lemma example_walk:
  "walkDirectory example_tree ''/r'' [] ''/r'' ignore_none {} {} = Inr [''/r/src/a.js'', ''/r/b.txt'']"
  by (simp add: example_tree_def ignore_none_def ignore_nothing_def path_eval)

lemma locked_reach:
  "reach_node locked_tree [] [''secret''] ignore_none {} {} = Some (NoListDir ''EACCES: permission denied'')"
  by (simp add: locked_tree_def kept_def ignore_none_def ignore_nothing_def path_sep_def)

lemma locked_walk:
  "walkDirectory locked_tree ''/r'' [] ''/r'' ignore_none {} {} = Inl (Thrown ''EACCES: permission denied'')"
  by (simp add: locked_tree_def ignore_none_def ignore_nothing_def path_eval)

lemma link_flatten:
  "flattenProject ignore_nothing (rooted_fs link_tree) ''/x'' (Some ''/r'') {} {} {}
     = ([(''/r/link'', ''/r/flatbrain/flattened/link''),
         (''/r/b.txt'', ''/r/flatbrain/flattened/b.txt'')], None)"
  by (simp add: run_eval rooted_fs_def readFileSync_def link_tree_def
      ignore_nothing_def flattenedFileName_def getFlattenedFileName_def path_extname_def
      path_eval)

lemma name_excluded_not_walked:
  assumes "list_all plain R" and "wf_node root"
    and "lookup_node root segs = Some entry" and "segs \<noteq> []"
    and "last segs = ''flatbrain'' \<or> last segs = ''.git''
         \<or> (isDirectory entry \<and> last segs \<in> excludeDirs)
         \<or> (isFile entry \<and> last segs \<in> excludeFiles)"
    and "walkDirectory root (abs_path R) [] (abs_path R) ig excludeDirs excludeFiles = Inr files"
  shows "abs_path (R @ segs) \<notin> set files"
proof
  assume "abs_path (R @ segs) \<in> set files"
  from walk_Dir_reach [OF assms(1,2,6) this] obtain ss m where
    h: "list_all plain ss" "abs_path (R @ segs) = abs_path (R @ ss)"
    "reach_node root [] ss ig excludeDirs excludeFiles = Some m" by blast
  have "list_all plain segs" using lookup_plain(1) [OF assms(3,2)] .
  with h(1,2) assms(1) have "R @ segs = R @ ss"
    by (intro abs_path_inject) simp_all
  then have ss: "ss = segs" by simp
  from reach_lookup(1) [OF h(3)] assms(3) ss have "m = entry" by simp
  with reach_last_kept [OF assms(4) h(3) [unfolded ss]]
  have "kept (last segs) entry (join_with [path_sep] segs) ig excludeDirs excludeFiles" by simp
  with assms(5) show False by (auto simp: kept_def)
qed

lemma lock_walk:
  "walkDirectory lock_tree ''/r'' [] ''/r'' ignore_none {} DEFAULT_LOCKFILES
     = Inr [''/r/sub/a.js'', ''/r/b.txt'']"
  by (simp add: lock_tree_def ignore_none_def ignore_nothing_def DEFAULT_LOCKFILES_def path_eval)

lemma plain_r: "list_all plain [''r'']"
  by (simp add: plain_def path_sep_def)

lemma abs_r: "abs_path [''r''] = ''/r''"
  by (simp add: abs_path_def path_sep_def)

lemma wf_lock_tree: "wf_node lock_tree"
  by (simp add: lock_tree_def plain_def path_sep_def)

lemma copyFiles_sources:
  "fst ` set (fst (copyFiles fs files rootDir flattenedDir toTxtExtensions copied))
     \<subseteq> fst ` set copied \<union> set files"
proof (induction files arbitrary: copied)
  case Nil
  show ?case by simp
next
  case (Cons f fs')
  show ?case
  proof (cases "copyFileSync fs f (path_join flattenedDir (flattenedFileName f rootDir toTxtExtensions))")
    case None
    with Cons.IH [of "copied @ [(f, path_join flattenedDir (flattenedFileName f rootDir toTxtExtensions))]"]
    show ?thesis by auto
  next
    case (Some m)
    then show ?thesis by auto
  qed
qed

lemma flattenProject_sources:
  assumes "lstatSync fs (rootDirOf cwd directoryArg) = Inr root"
  shows "fst (flattenProject ignore_add fs cwd directoryArg excludeDirs excludeFiles
                toTxtExtensions) = []
       \<or> (\<exists>ig files.
              walkDirectory root (rootDirOf cwd directoryArg) [] (rootDirOf cwd directoryArg) ig
                excludeDirs excludeFiles = Inr files
            \<and> fst ` set (fst (flattenProject ignore_add fs cwd directoryArg excludeDirs
                                 excludeFiles toTxtExtensions)) \<subseteq> set files)"
proof (cases "fst (flattenProject ignore_add fs cwd directoryArg excludeDirs excludeFiles
                toTxtExtensions) = []")
  case True
  then show ?thesis by simp
next
  case False
  then obtain ig files where
    w: "walkDirectory root (rootDirOf cwd directoryArg) [] (rootDirOf cwd directoryArg) ig
          excludeDirs excludeFiles = Inr files"
    and f: "flattenProject ignore_add fs cwd directoryArg excludeDirs excludeFiles toTxtExtensions
          = copyFiles fs files (rootDirOf cwd directoryArg)
              (path_join (path_join (rootDirOf cwd directoryArg) ''flatbrain'') ''flattened'')
              toTxtExtensions []"
    using assms
    by (auto simp: flattenProject_def Let_def split: if_splits sum.splits option.splits)
  have "fst ` set (fst (copyFiles fs files (rootDirOf cwd directoryArg)
              (path_join (path_join (rootDirOf cwd directoryArg) ''flatbrain'') ''flattened'')
              toTxtExtensions [])) \<subseteq> set files"
    using copyFiles_sources [of fs files _ _ _ "[]"] by simp
  with w f show ?thesis by auto
qed

lemma lock_flatten:
  "flatten_action ignore_nothing (rooted_fs lock_tree) ''/x'' (Some ''/r'') no_options
     = ([(''/r/sub/a.js'', ''/r/flatbrain/flattened/sub^a.js''),
         (''/r/b.txt'', ''/r/flatbrain/flattened/b.txt'')], None)"
  by (simp add: flatten_action_def run_eval rooted_fs_def readFileSync_def
      lock_tree_def no_options_def DEFAULT_LOCKFILES_def
      ignore_nothing_def flattenedFileName_def getFlattenedFileName_def path_extname_def
      path_eval)

lemma lock_concat:
  "concat_action ignore_nothing (rooted_fs lock_tree) ''/x'' (Some ''/r'') no_options
     = Inr (''/r/flatbrain/concat/all.txt'',
            ''\<newline>=== sub/a.js ===\<newline>[Error reading file: EACCES: permission denied]\<newline>\<newline>=== b.txt ===\<newline>[Error reading file: EACCES: permission denied]\<newline>'')"
  by (simp add: concat_action_def run_eval rooted_fs_def readFileSync_def
      lock_tree_def no_options_def DEFAULT_LOCKFILES_def
      ignore_nothing_def path_eval)

lemma path_extname_suffix:
  assumes "path_sep \<notin> set n" and "path_extname n \<noteq> []"
  shows "\<exists>stem. n = stem @ path_extname n"
proof -
  have d: "dropWhile (\<lambda>c. c = path_sep) (rev n) = rev n"
    using assms(1) by (cases "rev n") auto
  have t: "takeWhile (\<lambda>c. c \<noteq> path_sep) (rev n) = rev n"
    using assms(1) by (auto simp: takeWhile_eq_all_conv)
  have base: "rev (takeWhile (\<lambda>c. c \<noteq> path_sep) (dropWhile (\<lambda>c. c = path_sep) (rev n))) = n"
    by (simp add: d t)
  let ?after = "rev (takeWhile (\<lambda>c. c \<noteq> CHR ''.'') (rev n))"
  from assms(2) have ext: "path_extname n = CHR ''.'' # ?after" and dot: "CHR ''.'' \<in> set n"
    by (auto simp: path_extname_def base Let_def split: if_splits)
  from dot have "dropWhile (\<lambda>c. c \<noteq> CHR ''.'') (rev n) \<noteq> []" by auto
  then obtain x rest where dw: "dropWhile (\<lambda>c. c \<noteq> CHR ''.'') (rev n) = x # rest"
    by (cases "dropWhile (\<lambda>c. c \<noteq> CHR ''.'') (rev n)") auto
  from hd_dropWhile [of "\<lambda>c. c \<noteq> CHR ''.''" "rev n"] dw have x: "x = CHR ''.''" by simp
  have "rev n = takeWhile (\<lambda>c. c \<noteq> CHR ''.'') (rev n) @ CHR ''.'' # rest"
    using takeWhile_dropWhile_id [of "\<lambda>c. c \<noteq> CHR ''.''" "rev n"] dw x by simp
  then have "rev (rev n) = rev (takeWhile (\<lambda>c. c \<noteq> CHR ''.'') (rev n) @ CHR ''.'' # rest)"
    by simp
  then have "n = rev rest @ CHR ''.'' # ?after" by simp
  with ext show ?thesis by auto
qed

lemma slice0_drop_suffix:
  "ext \<noteq> [] \<Longrightarrow> slice0 (stem @ ext) (- int (length ext)) = stem"
  by (simp add: slice0_def)

lemma getFlattenedFileName_no_sep: "path_sep \<notin> set (getFlattenedFileName filePath rootDir)"
  by (auto simp: getFlattenedFileName_def path_sep_def)


lemma walk_error_ends_run:
  assumes "lstatSync fs (rootDirOf cwd directoryArg) = Inr root"
    and "loadGitignore ignore_add fs (rootDirOf cwd directoryArg) = Inr ig"
    and "walkDirectory root (rootDirOf cwd directoryArg) [] (rootDirOf cwd directoryArg) ig
             excludeDirs excludeFiles = Inl e"
  shows "\<exists>e'. concatenateFiles ignore_add fs cwd directoryArg excludeDirs excludeFiles outputFile
          = Inl e'"
    and "\<exists>e'. flattenProject ignore_add fs cwd directoryArg excludeDirs excludeFiles
                toTxtExtensions = ([], Some e')"
  using assms
  by (auto simp: concatenateFiles_def flattenProject_def Let_def split: option.splits)

lemma locked_runs:
  "concatenateFiles ignore_nothing (rooted_fs locked_tree) ''/x'' (Some ''/r'') {} {} ''all.txt''
     = Inl (Thrown ''EACCES: permission denied'')"
  "flattenProject ignore_nothing (rooted_fs locked_tree) ''/x'' (Some ''/r'') {} {} {}
     = ([], Some (Thrown ''EACCES: permission denied''))"
  by (simp_all add: run_eval rooted_fs_def readFileSync_def locked_tree_def ignore_nothing_def path_eval)

lemma ignore_none_False: "ignore_none p = Inr False"
  by (simp add: ignore_none_def ignore_nothing_def)


lemma copyFiles_destinations:
  "(src, dest) \<in> set (fst (copyFiles fs files rootDir flattenedDir toTxtExtensions copied))
     \<Longrightarrow> (src, dest) \<in> set copied
         \<or> dest = path_join flattenedDir (flattenedFileName src rootDir toTxtExtensions)"
proof (induction files arbitrary: copied)
  case Nil
  then show ?case by simp
next
  case (Cons f fs')
  show ?case
  proof (cases "copyFileSync fs f (path_join flattenedDir (flattenedFileName f rootDir toTxtExtensions))")
    case None
    with Cons.prems
    have "(src, dest) \<in> set (fst (copyFiles fs fs' rootDir flattenedDir toTxtExtensions
            (copied @ [(f, path_join flattenedDir (flattenedFileName f rootDir toTxtExtensions))])))"
      by simp
    from Cons.IH [OF this] show ?thesis by auto
  next
    case (Some m)
    with Cons.prems show ?thesis by simp
  qed
qed

text \<open>
  Every copy that \<open>flattenProject\<close> makes goes to the name that the copy loop computes from
  the extensions handed to \<open>flattenProject\<close>.
\<close>

lemma flattenProject_destinations:
  assumes "(src, dest) \<in> set (fst (flattenProject ignore_add fs cwd directoryArg excludeDirs
                                      excludeFiles toTxtExtensions))"
  shows "dest = path_join (path_join (path_join (rootDirOf cwd directoryArg) ''flatbrain'')
                             ''flattened'')
                  (flattenedFileName src (rootDirOf cwd directoryArg) toTxtExtensions)"
proof -
  from assms obtain files where
    "(src, dest) \<in> set (fst (copyFiles fs files (rootDirOf cwd directoryArg)
        (path_join (path_join (rootDirOf cwd directoryArg) ''flatbrain'') ''flattened'')
        toTxtExtensions []))"
    by (auto simp: flattenProject_def Let_def split: if_splits sum.splits option.splits)
  from copyFiles_destinations [OF this] show ?thesis by simp
qed

text \<open>
  Where the extension of the flattened name is not empty, the name that the copy loop
  computes is the one the specification describes: the extension is replaced by \<open>.txt\<close> when
  it is configured, and the name is kept when it is not.
\<close>

lemma flattenedFileName_retarget:
  "(path_extname (getFlattenedFileName filePath rootDir) \<noteq> []
      \<and> path_extname (getFlattenedFileName filePath rootDir) \<in> toTxtExtensions \<longrightarrow>
        (\<exists>stem. getFlattenedFileName filePath rootDir
                   = stem @ path_extname (getFlattenedFileName filePath rootDir)
             \<and> flattenedFileName filePath rootDir toTxtExtensions = stem @ ''.txt''))
   \<and> (path_extname (getFlattenedFileName filePath rootDir) \<notin> toTxtExtensions \<longrightarrow>
        flattenedFileName filePath rootDir toTxtExtensions = getFlattenedFileName filePath rootDir)"
proof (intro conjI impI)
  assume h: "path_extname (getFlattenedFileName filePath rootDir) \<noteq> []
      \<and> path_extname (getFlattenedFileName filePath rootDir) \<in> toTxtExtensions"
  from path_extname_suffix [OF getFlattenedFileName_no_sep] h
  obtain stem where
    s: "getFlattenedFileName filePath rootDir
          = stem @ path_extname (getFlattenedFileName filePath rootDir)"
    by blast
  from h have "slice0 (stem @ path_extname (getFlattenedFileName filePath rootDir))
                 (- int (length (path_extname (getFlattenedFileName filePath rootDir)))) = stem"
    by (simp add: slice0_drop_suffix)
  with s have "slice0 (getFlattenedFileName filePath rootDir)
                 (- int (length (path_extname (getFlattenedFileName filePath rootDir)))) = stem"
    by simp
  with h have "flattenedFileName filePath rootDir toTxtExtensions = stem @ ''.txt''"
    by (simp add: flattenedFileName_def Let_def)
  with s show "\<exists>stem. getFlattenedFileName filePath rootDir
                   = stem @ path_extname (getFlattenedFileName filePath rootDir)
             \<and> flattenedFileName filePath rootDir toTxtExtensions = stem @ ''.txt''" by blast
next
  assume "path_extname (getFlattenedFileName filePath rootDir) \<notin> toTxtExtensions"
  then show "flattenedFileName filePath rootDir toTxtExtensions
               = getFlattenedFileName filePath rootDir"
    by (simp add: flattenedFileName_def Let_def)
qed

text \<open>The command on the specification's example for \<open>toTxt\<close>.\<close>

lemma ext_flatten:
  "flatten_action ignore_nothing (rooted_fs ext_tree) ''/x'' (Some ''/r'') toTxt_ext
     = ([(''/r/a/b/c.ext'', ''/r/flatbrain/flattened/a^b^c.txt''),
         (''/r/d.js'', ''/r/flatbrain/flattened/d.js'')], None)"
  by (simp add: flatten_action_def run_eval rooted_fs_def readFileSync_def
      ext_tree_def toTxt_ext_def DEFAULT_LOCKFILES_def slice0_def
      ignore_nothing_def flattenedFileName_def getFlattenedFileName_def path_extname_def
      path_eval)





section \<open>The claims\<close>

subsection \<open>C1: an excluded directory hides its whole subtree\<close>

text \<open>
  C1.  Let \<open>d\<close> be a directory of the tree, at the relative path \<open>dsegs\<close>, that the
  exclusion decision marks as excluded: its name is in \<open>excludeDirs\<close>, or the ignore instance
  ignores its relative path.  Then no path of the walked file list lies below that
  directory, whatever the subtree holds, and the walk does not open it: the loop over any
  listing of the parent gives the same result with and without the entry, also when the
  directory could not be listed at all.  The outputs of both commands are built from the
  walked file list alone.
\<close>

theorem excluded_directory_subtree_unreachable:
  assumes "list_all plain R" and "wf_node root"
    and "lookup_node root dsegs = Some d" and "dsegs \<noteq> []" and "isDirectory d"
    and "last dsegs \<in> excludeDirs \<or> ig (join_with [path_sep] dsegs) = Inr True"
  shows "(walkDirectory root (abs_path R) [] (abs_path R) ig excludeDirs excludeFiles = Inr files
            \<longrightarrow> (\<forall>p\<in>set files. \<not> prefix (abs_path (R @ dsegs) @ [path_sep]) p))
       \<and> walkEntries (before @ (last dsegs, d) # after) (abs_path (R @ butlast dsegs)) fileList
           (abs_path R) ig excludeDirs excludeFiles
         = walkEntries (before @ after) (abs_path (R @ butlast dsegs)) fileList
             (abs_path R) ig excludeDirs excludeFiles"
proof (intro conjI impI ballI)
  have pd: "list_all plain dsegs" using lookup_plain(1) [OF assms(3,2)] .
  {
    fix p
    assume walk: "walkDirectory root (abs_path R) [] (abs_path R) ig excludeDirs excludeFiles = Inr files"
      and p: "p \<in> set files"
    show "\<not> prefix (abs_path (R @ dsegs) @ [path_sep]) p"
    proof
      assume pre: "prefix (abs_path (R @ dsegs) @ [path_sep]) p"
      from walk_Dir_reach [OF assms(1,2) walk p] obtain ss m where
        h: "list_all plain ss" "p = abs_path (R @ ss)"
        "reach_node root [] ss ig excludeDirs excludeFiles = Some m" by blast
      from abs_path_prefix [of "R @ dsegs" "R @ ss"] pre h(1,2) pd assms(1)
      obtain t where t: "t \<noteq> []" "R @ ss = (R @ dsegs) @ t" by auto
      then have ss: "ss = dsegs @ t" by simp
      from reach_split [OF h(3) [unfolded ss]] obtain d' where
        d': "reach_node root [] dsegs ig excludeDirs excludeFiles = Some d'" by auto
      from reach_lookup(1) [OF d'] assms(3) have "d' = d" by simp
      with reach_last_kept [OF assms(4) d']
      have "kept (last dsegs) d (join_with [path_sep] dsegs) ig excludeDirs excludeFiles" by simp
      with assms(5,6) show False by (auto simp: kept_def)
    qed
  }
  have rel: "path_relative (abs_path R) (path_join (abs_path (R @ butlast dsegs)) (last dsegs))
           = join_with [path_sep] dsegs"
    using assms(1) pd assms(4) by (rule path_of_entry)
  have nf: "\<not> isFile d" using assms(5) by (cases d) simp_all
  show "walkEntries (before @ (last dsegs, d) # after) (abs_path (R @ butlast dsegs)) fileList
           (abs_path R) ig excludeDirs excludeFiles
         = walkEntries (before @ after) (abs_path (R @ butlast dsegs)) fileList
             (abs_path R) ig excludeDirs excludeFiles"
    using assms(5,6) nf rel by (auto simp: walkEntries_append split: sum.splits)
qed

theorem excluded_directory_subtree_unreachable_witness:
  "list_all plain [''r''] \<and> wf_node modules_tree
   \<and> lookup_node modules_tree [''node_modules''] = Some (Dir [(''x.js'', File)])
   \<and> ''node_modules'' \<in> {''node_modules''}
   \<and> walkDirectory modules_tree ''/r'' [] ''/r'' ignore_none {''node_modules''} {} = Inr [''/r/b.txt'']
   \<and> \<not> prefix ''/r/node_modules/'' ''/r/b.txt''
   \<and> walkEntries [(''node_modules'', Dir [(''x.js'', File)]), (''b.txt'', File)] ''/r'' []
        ''/r'' ignore_none {''node_modules''} {}
      = walkEntries [(''b.txt'', File)] ''/r'' [] ''/r'' ignore_none {''node_modules''} {}"
proof -
  have h1: "list_all plain [''r'']" by (simp add: plain_def path_sep_def)
  have h2: "wf_node modules_tree" by (simp add: modules_tree_def plain_def path_sep_def)
  have h3: "lookup_node modules_tree [''node_modules''] = Some (Dir [(''x.js'', File)])"
    by (simp add: modules_tree_def)
  have h4: "[''node_modules''] \<noteq> []" by simp
  have h5: "isDirectory (Dir [(''x.js'', File)])" by simp
  have h6: "last [''node_modules''] \<in> {''node_modules''}
            \<or> ignore_none (join_with [path_sep] [''node_modules'']) = Inr True" by simp
  have a: "abs_path [''r''] = ''/r''" "abs_path ([''r''] @ butlast [''node_modules'']) = ''/r''"
    "abs_path ([''r''] @ [''node_modules'']) @ [path_sep] = ''/r/node_modules/''"
    by (simp_all add: abs_path_def path_sep_def)
  from excluded_directory_subtree_unreachable [where ig = ignore_none, OF h1 h2 h3 h4 h5 h6,
      of "{}" "[''/r/b.txt'']" "[]" "[(''b.txt'', File)]" "[]"]
  show ?thesis using h1 h2 h3 modules_walk unfolding a by simp
qed

subsection \<open>C2: name-based exclusion against the ignore patterns\<close>

text \<open>
  C2.  An entry with a structural name (\<open>flatbrain\<close>, \<open>.git\<close>), a directory whose name is in
  \<open>excludeDirs\<close> and a regular file whose name is in \<open>excludeFiles\<close> are excluded whatever the
  ignore instance \<open>ig\<close> answers, hence whatever the patterns of the ignore file are, negations
  included: the entry is not in the walked file list, and the loop over any listing gives
  the same result with and without the entry.  The name tests come before the call of
  \<open>ig.ignores\<close>, which is not even made for such an entry.
\<close>

theorem name_exclusion_overrides_ignore:
  assumes "list_all plain R" and "wf_node root"
    and "lookup_node root segs = Some entry" and "segs \<noteq> []"
    and "last segs = ''flatbrain'' \<or> last segs = ''.git''
         \<or> (isDirectory entry \<and> last segs \<in> excludeDirs)
         \<or> (isFile entry \<and> last segs \<in> excludeFiles)"
  shows "(walkDirectory root (abs_path R) [] (abs_path R) ig excludeDirs excludeFiles = Inr files
            \<longrightarrow> abs_path (R @ segs) \<notin> set files)
       \<and> walkEntries (before @ (last segs, entry) # after) dirPath fileList rootDir ig
           excludeDirs excludeFiles
         = walkEntries (before @ after) dirPath fileList rootDir ig excludeDirs excludeFiles"
proof (intro conjI impI)
  assume "walkDirectory root (abs_path R) [] (abs_path R) ig excludeDirs excludeFiles = Inr files"
  with assms show "abs_path (R @ segs) \<notin> set files" by (rule name_excluded_not_walked)
next
  show "walkEntries (before @ (last segs, entry) # after) dirPath fileList rootDir ig
           excludeDirs excludeFiles
         = walkEntries (before @ after) dirPath fileList rootDir ig excludeDirs excludeFiles"
    using assms(5) by (auto simp: walkEntries_append split: sum.splits)
qed

theorem name_exclusion_overrides_ignore_witness:
  "list_all plain [''r''] \<and> wf_node lock_tree
   \<and> lookup_node lock_tree [''yarn.lock''] = Some File
   \<and> isFile File \<and> ''yarn.lock'' \<in> DEFAULT_LOCKFILES
   \<and> ignore_none ''yarn.lock'' = Inr False
   \<and> walkDirectory lock_tree ''/r'' [] ''/r'' ignore_none {} DEFAULT_LOCKFILES
        = Inr [''/r/sub/a.js'', ''/r/b.txt'']
   \<and> ''/r/yarn.lock'' \<notin> set [''/r/sub/a.js'', ''/r/b.txt'']
   \<and> walkEntries [(''yarn.lock'', File), (''b.txt'', File)] ''/r'' [] ''/r'' ignore_none {}
        DEFAULT_LOCKFILES
      = walkEntries [(''b.txt'', File)] ''/r'' [] ''/r'' ignore_none {} DEFAULT_LOCKFILES"
proof -
  have h3: "lookup_node lock_tree [''yarn.lock''] = Some File" by (simp add: lock_tree_def)
  have h4: "[''yarn.lock''] \<noteq> []" by simp
  have h5: "last [''yarn.lock''] = ''flatbrain'' \<or> last [''yarn.lock''] = ''.git''
         \<or> (isDirectory File \<and> last [''yarn.lock''] \<in> {})
         \<or> (isFile File \<and> last [''yarn.lock''] \<in> DEFAULT_LOCKFILES)"
    by (simp add: DEFAULT_LOCKFILES_def)
  have i: "ignore_none ''yarn.lock'' = Inr False"
    by (simp add: ignore_none_def ignore_nothing_def)
  have a: "abs_path ([''r''] @ [''yarn.lock'']) = ''/r/yarn.lock''"
    by (simp add: abs_path_def path_sep_def)
  from name_exclusion_overrides_ignore [where ig = ignore_none, OF plain_r wf_lock_tree h3 h4 h5,
      of "[''/r/sub/a.js'', ''/r/b.txt'']" "[]" "[(''b.txt'', File)]" "''/r''" "[]" "''/r''"]
  show ?thesis
    using plain_r wf_lock_tree h3 i lock_walk unfolding a abs_r
    by (simp add: DEFAULT_LOCKFILES_def)
qed

subsection \<open>C3: the flattened name\<close>

text \<open>
  C3.  For every file of the walked list, the flattened name is the root-relative path with
  every separator replaced by \<open>^\<close>: the file lies at some segments \<open>segs\<close> below the root, its
  relative path is those segments joined by the separator, and its flattened name is the
  same segments joined by \<open>^\<close>.  A file directly in the root has one segment and flattens to
  its own name.
\<close>

theorem flattened_name_joins_segments:
  assumes "list_all plain R" and "wf_node root"
    and "walkDirectory root (abs_path R) [] (abs_path R) ig excludeDirs excludeFiles = Inr files"
    and "filePath \<in> set files"
  shows "getFlattenedFileName filePath (abs_path R)
           = map (\<lambda>c. if c = path_sep then CHR ''^'' else c) (path_relative (abs_path R) filePath)
       \<and> (\<exists>segs. segs \<noteq> [] \<and> list_all plain segs \<and> filePath = abs_path (R @ segs)
                  \<and> path_relative (abs_path R) filePath = join_with [path_sep] segs
                  \<and> getFlattenedFileName filePath (abs_path R) = join_with ''^'' segs
                  \<and> (length segs = 1 \<longrightarrow> getFlattenedFileName filePath (abs_path R) = hd segs))"
proof -
  from walk_Dir_reach [OF assms] obtain ss where
    ss: "ss \<noteq> []" "list_all plain ss" "filePath = abs_path (R @ ss)" by blast
  have rel: "path_relative (abs_path R) filePath = join_with [path_sep] ss"
    unfolding ss(3) using assms(1) ss(2) by (rule path_relative_abs_path)
  have fl: "getFlattenedFileName filePath (abs_path R) = join_with ''^'' ss"
    by (simp add: getFlattenedFileName_def rel flatten_join ss(2))
  have one: "length ss = 1 \<longrightarrow> getFlattenedFileName filePath (abs_path R) = hd ss"
    unfolding fl by (cases ss) auto
  show ?thesis
    using ss rel fl one by (auto simp: getFlattenedFileName_def)
qed

theorem flattened_name_joins_segments_witness:
  "list_all plain [''r''] \<and> wf_node example_tree
   \<and> walkDirectory example_tree ''/r'' [] ''/r'' ignore_none {} {} = Inr [''/r/src/a.js'', ''/r/b.txt'']
   \<and> getFlattenedFileName ''/r/src/a.js'' ''/r'' = ''src^a.js''
   \<and> (\<exists>segs. segs \<noteq> [] \<and> list_all plain segs \<and> ''/r/src/a.js'' = abs_path ([''r''] @ segs)
         \<and> getFlattenedFileName ''/r/src/a.js'' ''/r'' = join_with ''^'' segs)"
proof -
  have h1: "list_all plain [''r'']" by (simp add: plain_def path_sep_def)
  have h2: "wf_node example_tree" by (simp add: example_tree_def plain_def path_sep_def)
  have a: "abs_path [''r''] = ''/r''" by (simp add: abs_path_def path_sep_def)
  have h3: "walkDirectory example_tree (abs_path [''r'']) [] (abs_path [''r'']) ignore_none {} {}
              = Inr [''/r/src/a.js'', ''/r/b.txt'']"
    unfolding a by (rule example_walk)
  have h4: "''/r/src/a.js'' \<in> set [''/r/src/a.js'', ''/r/b.txt'']" by simp
  have v: "getFlattenedFileName ''/r/src/a.js'' ''/r'' = ''src^a.js''"
    by (simp add: getFlattenedFileName_def path_eval)
  from flattened_name_joins_segments [OF h1 h2 h3 h4]
  show ?thesis using h1 h2 example_walk v unfolding a by blast
qed

subsection \<open>C4: the concatenated artifact\<close>

text \<open>
  C4, as amended.  Whenever \<open>concatenateFiles\<close> produces its output file, the root was
  stat-ed, the ignore file loaded and the tree walked without error, and the text written
  is exactly the concatenation, in the order of the walk, of one block per walked file: a
  line break, the header line \<open>=== <root-relative path> ===\<close>, and then the content of the
  file, closed by a line break when it does not already end in one.  The line break in front
  of the header is written for every file, the first one included, so the artifact starts
  with an empty line.
\<close>

theorem concat_artifact:
  assumes "concatenateFiles ignore_add fs cwd directoryArg excludeDirs excludeFiles outputFile
             = Inr (outPath, text)"
  shows "\<exists>root ig filePaths.
           lstatSync fs (rootDirOf cwd directoryArg) = Inr root
         \<and> loadGitignore ignore_add fs (rootDirOf cwd directoryArg) = Inr ig
         \<and> walkDirectory root (rootDirOf cwd directoryArg) [] (rootDirOf cwd directoryArg) ig
              excludeDirs excludeFiles = Inr filePaths
         \<and> text = concat (map (fileBlock fs (rootDirOf cwd directoryArg)) filePaths)"
  using assms
  by (auto simp: concatenateFiles_def Let_def writeFiles_blocks
      split: if_splits sum.splits option.splits)

text \<open>
  The theorem at the specification's example: the run succeeds, and its text is the two
  blocks, each behind its line break.
\<close>

theorem concat_artifact_witness:
  "concatenateFiles ignore_nothing example_fs ''/x'' (Some ''/r'') {} {} ''all.txt''
     = Inr (''/r/flatbrain/concat/all.txt'',
            ''\<newline>=== src/a.js ===\<newline>hello\<newline>\<newline>=== b.txt ===\<newline>world\<newline>'')
   \<and> (\<exists>root ig filePaths.
           lstatSync example_fs (rootDirOf ''/x'' (Some ''/r'')) = Inr root
         \<and> loadGitignore ignore_nothing example_fs (rootDirOf ''/x'' (Some ''/r'')) = Inr ig
         \<and> walkDirectory root (rootDirOf ''/x'' (Some ''/r'')) [] (rootDirOf ''/x'' (Some ''/r'')) ig
              {} {} = Inr filePaths
         \<and> ''\<newline>=== src/a.js ===\<newline>hello\<newline>\<newline>=== b.txt ===\<newline>world\<newline>''
             = concat (map (fileBlock example_fs (rootDirOf ''/x'' (Some ''/r''))) filePaths))"
  using concat_artifact [OF example_concat] example_concat by blast

text \<open>
  The claim as stated puts no separator at the start of the stream.  On the example the
  artifact is not the text that begins with the first header.
\<close>

theorem concat_leading_newline_counterexample:
  "concatenateFiles ignore_nothing example_fs ''/x'' (Some ''/r'') {} {} ''all.txt''
     \<noteq> Inr (''/r/flatbrain/concat/all.txt'',
            ''=== src/a.js ===\<newline>hello\<newline>\<newline>=== b.txt ===\<newline>world\<newline>'')"
  by (simp add: example_concat)

subsection \<open>C5: collisions of flattened names\<close>

text \<open>
  C5 fails on the code.  In a root that holds the file \<open>a^b.txt\<close> next to the directory \<open>a\<close>
  with the file \<open>b.txt\<close>, both files are walked, both flatten to \<open>a^b.txt\<close>, and \<open>flatten\<close>
  copies both to the same destination without an error: the second copy replaces the
  first.  The replacement of the separator keeps the names apart only as long as no name
  of the tree contains \<open>^\<close> itself.
\<close>

theorem flattened_names_collide:
  "flatten_action ignore_nothing (rooted_fs collision_tree) ''/x'' (Some ''/r'') no_options
     = ([(''/r/a^b.txt'', ''/r/flatbrain/flattened/a^b.txt''),
         (''/r/a/b.txt'', ''/r/flatbrain/flattened/a^b.txt'')], None)"
  by (simp add: flatten_action_def run_eval rooted_fs_def readFileSync_def
      collision_tree_def no_options_def DEFAULT_LOCKFILES_def
      ignore_nothing_def flattenedFileName_def getFlattenedFileName_def path_extname_def
      path_eval)

subsection \<open>C6: read errors while concatenating\<close>




subsection \<open>C7: errors of the walk\<close>

text \<open>
  C7, as amended.  When the walk reaches a directory that cannot be listed, that is, every
  entry on the way from the root to it, the directory included, is kept by the exclusion
  decision, the walk fails, and the whole run ends with that error: \<open>flattenProject\<close> has
  copied nothing and \<open>concatenateFiles\<close> has written nothing.
\<close>

theorem unlistable_directory_aborts_run:
  assumes "rootDirOf cwd directoryArg = abs_path R" and "list_all plain R"
    and "lstatSync fs (abs_path R) = Inr root" and "wf_node root"
    and "loadGitignore ignore_add fs (abs_path R) = Inr ig"
    and "reach_node root [] segs ig excludeDirs excludeFiles = Some (NoListDir m)"
  shows "(\<exists>e. walkDirectory root (abs_path R) [] (abs_path R) ig excludeDirs excludeFiles = Inl e)
       \<and> (\<exists>e. flattenProject ignore_add fs cwd directoryArg excludeDirs excludeFiles
                  toTxtExtensions = ([], Some e))
       \<and> (\<exists>e. concatenateFiles ignore_add fs cwd directoryArg excludeDirs excludeFiles
                  outputFile = Inl e)"
proof -
  have "\<exists>e. walkDirectory root (abs_path R) [] (abs_path R) ig excludeDirs excludeFiles = Inl e"
  proof (cases "walkDirectory root (abs_path R) [] (abs_path R) ig excludeDirs excludeFiles")
    case (Inl e)
    then show ?thesis by blast
  next
    case (Inr out)
    have "walkDirectory root (abs_path (R @ [])) [] (abs_path R) ig excludeDirs excludeFiles = Inr out"
      using Inr by simp
    from walk_listable(1) [OF assms(2) this _ assms(4,6)] show ?thesis by simp
  qed
  then obtain e where
    e: "walkDirectory root (rootDirOf cwd directoryArg) [] (rootDirOf cwd directoryArg) ig
          excludeDirs excludeFiles = Inl e"
    using assms(1) by auto
  have l: "lstatSync fs (rootDirOf cwd directoryArg) = Inr root"
    and g: "loadGitignore ignore_add fs (rootDirOf cwd directoryArg) = Inr ig"
    using assms(1,3,5) by simp_all
  show ?thesis
    using e walk_error_ends_run [OF l g e] assms(1) by auto
qed

theorem unlistable_directory_aborts_run_witness:
  "rootDirOf ''/x'' (Some ''/r'') = abs_path [''r''] \<and> list_all plain [''r'']
   \<and> wf_node locked_tree
   \<and> reach_node locked_tree [] [''secret''] ignore_none {} {}
       = Some (NoListDir ''EACCES: permission denied'')
   \<and> walkDirectory locked_tree ''/r'' [] ''/r'' ignore_none {} {}
       = Inl (Thrown ''EACCES: permission denied'')
   \<and> flattenProject ignore_nothing (rooted_fs locked_tree) ''/x'' (Some ''/r'') {} {} {}
       = ([], Some (Thrown ''EACCES: permission denied''))
   \<and> concatenateFiles ignore_nothing (rooted_fs locked_tree) ''/x'' (Some ''/r'') {} {} ''all.txt''
       = Inl (Thrown ''EACCES: permission denied'')"
proof -
  have a: "abs_path [''r''] = ''/r''" by (simp add: abs_path_def path_sep_def)
  have h1: "rootDirOf ''/x'' (Some ''/r'') = abs_path [''r'']" by (simp add: path_eval)
  have h2: "list_all plain [''r'']" by (simp add: plain_def path_sep_def)
  have h4: "lstatSync (rooted_fs locked_tree) (abs_path [''r'']) = Inr locked_tree"
    by (simp add: a rooted_fs_def readFileSync_def)
  have h5: "wf_node locked_tree" by (simp add: locked_tree_def plain_def path_sep_def)
  have h6: "loadGitignore ignore_nothing (rooted_fs locked_tree) (abs_path [''r'']) = Inr ignore_none"
    by (simp add: a loadGitignore_def rooted_fs_def readFileSync_def ignore_none_def path_eval)
  from unlistable_directory_aborts_run [OF h1 h2 h4 h5 h6 locked_reach, of "{}" "''all.txt''"]
  show ?thesis using h1 h2 h5 locked_reach locked_walk locked_runs unfolding a by simp
qed

text \<open>
  The claim as stated lets a symbolic link abort the run as well.  A symbolic link is
  neither a directory nor a regular file for the walk, which appends it to the file list
  and goes on; the run below ends without an error.
\<close>

theorem symlink_does_not_abort_counterexample:
  "walkDirectory link_tree ''/r'' [] ''/r'' ignore_none {} {} = Inr [''/r/link'', ''/r/b.txt'']
   \<and> flattenProject ignore_nothing (rooted_fs link_tree) ''/x'' (Some ''/r'') {} {} {}
     = ([(''/r/link'', ''/r/flatbrain/flattened/link''),
         (''/r/b.txt'', ''/r/flatbrain/flattened/b.txt'')], None)"
  by (simp add: link_flatten) (simp add: link_tree_def ignore_none_def ignore_nothing_def path_eval)

subsection \<open>C8: the default lock files\<close>

text \<open>
  C8.  Whatever the options of the command line, hence also with no exclusion given by the
  user, a regular file named \<open>yarn.lock\<close>, \<open>package-lock.json\<close> or \<open>pnpm-lock.yaml\<close>, anywhere in
  the tree, is not among the sources that \<open>flatten\<close> copies, and not among the files from
  which \<open>concat\<close> writes its text.
\<close>

theorem default_lockfiles_excluded:
  assumes "rootDirOf cwd directoryArg = abs_path R" and "list_all plain R"
    and "lstatSync fs (abs_path R) = Inr root" and "wf_node root"
    and "lookup_node root segs = Some File" and "segs \<noteq> []"
    and "last segs \<in> DEFAULT_LOCKFILES"
  shows "abs_path (R @ segs)
           \<notin> fst ` set (fst (flatten_action ignore_add fs cwd directoryArg options))
       \<and> (concat_action ignore_add fs cwd directoryArg options = Inr (outPath, text) \<longrightarrow>
            (\<exists>ig filePaths.
                walkDirectory root (abs_path R) [] (abs_path R) ig (set (excludeDir options))
                  (DEFAULT_LOCKFILES \<union> set (excludeFile options)) = Inr filePaths
              \<and> text = writeFiles fs filePaths (abs_path R) []
              \<and> abs_path (R @ segs) \<notin> set filePaths))"
proof (intro conjI impI)
  let ?exD = "set (excludeDir options)"
  let ?exF = "DEFAULT_LOCKFILES \<union> set (excludeFile options)"
  have ex: "last segs = ''flatbrain'' \<or> last segs = ''.git''
         \<or> (isDirectory File \<and> last segs \<in> ?exD) \<or> (isFile File \<and> last segs \<in> ?exF)"
    using assms(7) by simp
  have nw: "abs_path (R @ segs) \<notin> set files"
    if "walkDirectory root (abs_path R) [] (abs_path R) ig ?exD ?exF = Inr files" for ig files
    using assms(2,4,5,6) ex that by (rule name_excluded_not_walked)
  have l: "lstatSync fs (rootDirOf cwd directoryArg) = Inr root" using assms(1,3) by simp
  from flattenProject_sources [OF l, of ignore_add ?exD ?exF "set (toTxt options)"] nw
  show "abs_path (R @ segs)
           \<notin> fst ` set (fst (flatten_action ignore_add fs cwd directoryArg options))"
    unfolding flatten_action_def assms(1) by auto
next
  let ?exD = "set (excludeDir options)"
  let ?exF = "DEFAULT_LOCKFILES \<union> set (excludeFile options)"
  assume c: "concat_action ignore_add fs cwd directoryArg options = Inr (outPath, text)"
  have ex: "last segs = ''flatbrain'' \<or> last segs = ''.git''
         \<or> (isDirectory File \<and> last segs \<in> ?exD) \<or> (isFile File \<and> last segs \<in> ?exF)"
    using assms(7) by simp
  from c obtain ig filePaths where
    w: "walkDirectory root (abs_path R) [] (abs_path R) ig ?exD ?exF = Inr filePaths"
    and t: "text = writeFiles fs filePaths (abs_path R) []"
    using assms(1,3)
    by (auto simp: concat_action_def concatenateFiles_def Let_def
        split: if_splits sum.splits option.splits)
  have "abs_path (R @ segs) \<notin> set filePaths"
    using assms(2,4,5,6) ex w by (rule name_excluded_not_walked)
  with w t show "\<exists>ig filePaths.
                walkDirectory root (abs_path R) [] (abs_path R) ig ?exD ?exF = Inr filePaths
              \<and> text = writeFiles fs filePaths (abs_path R) []
              \<and> abs_path (R @ segs) \<notin> set filePaths" by blast
qed

theorem default_lockfiles_excluded_witness:
  "rootDirOf ''/x'' (Some ''/r'') = abs_path [''r''] \<and> list_all plain [''r'']
   \<and> lstatSync (rooted_fs lock_tree) (abs_path [''r'']) = Inr lock_tree \<and> wf_node lock_tree
   \<and> lookup_node lock_tree [''sub'', ''package-lock.json''] = Some File
   \<and> ''package-lock.json'' \<in> DEFAULT_LOCKFILES
   \<and> flatten_action ignore_nothing (rooted_fs lock_tree) ''/x'' (Some ''/r'') no_options
     = ([(''/r/sub/a.js'', ''/r/flatbrain/flattened/sub^a.js''),
         (''/r/b.txt'', ''/r/flatbrain/flattened/b.txt'')], None)
   \<and> ''/r/sub/package-lock.json''
       \<notin> fst ` set (fst (flatten_action ignore_nothing (rooted_fs lock_tree) ''/x'' (Some ''/r'')
                           no_options))
   \<and> (\<exists>ig filePaths.
          walkDirectory lock_tree ''/r'' [] ''/r'' ig (set (excludeDir no_options))
            (DEFAULT_LOCKFILES \<union> set (excludeFile no_options)) = Inr filePaths
        \<and> ''/r/sub/package-lock.json'' \<notin> set filePaths)"
proof -
  have h1: "rootDirOf ''/x'' (Some ''/r'') = abs_path [''r'']" by (simp add: path_eval)
  have h3: "lstatSync (rooted_fs lock_tree) (abs_path [''r'']) = Inr lock_tree"
    by (simp add: abs_r rooted_fs_def readFileSync_def)
  have h5: "lookup_node lock_tree [''sub'', ''package-lock.json''] = Some File"
    by (simp add: lock_tree_def)
  have h6: "[''sub'', ''package-lock.json''] \<noteq> []" by simp
  have h7: "last [''sub'', ''package-lock.json''] \<in> DEFAULT_LOCKFILES"
    by (simp add: DEFAULT_LOCKFILES_def)
  have m: "''package-lock.json'' \<in> DEFAULT_LOCKFILES" using h7 by simp
  have a: "abs_path ([''r''] @ [''sub'', ''package-lock.json'']) = ''/r/sub/package-lock.json''"
    by (simp add: abs_path_def path_sep_def)
  from default_lockfiles_excluded [OF h1 plain_r h3 wf_lock_tree h5 h6 h7,
      of ignore_nothing no_options "''/r/flatbrain/concat/all.txt''"
         "''\<newline>=== sub/a.js ===\<newline>[Error reading file: EACCES: permission denied]\<newline>\<newline>=== b.txt ===\<newline>[Error reading file: EACCES: permission denied]\<newline>''"]
  have "''/r/sub/package-lock.json''
       \<notin> fst ` set (fst (flatten_action ignore_nothing (rooted_fs lock_tree) ''/x'' (Some ''/r'')
                           no_options))
   \<and> (\<exists>ig filePaths.
          walkDirectory lock_tree ''/r'' [] ''/r'' ig (set (excludeDir no_options))
            (DEFAULT_LOCKFILES \<union> set (excludeFile no_options)) = Inr filePaths
        \<and> ''/r/sub/package-lock.json'' \<notin> set filePaths)"
    unfolding a abs_r using lock_concat by blast
  then show ?thesis using h1 plain_r h3 wf_lock_tree h5 m lock_flatten by blast
qed

subsection \<open>C9: retargeting extensions to txt\<close>

text \<open>
  C9 fails on the code.  \<open>flatten\<close> with \<open>--toTxt ""\<close> on a root that holds the files
  \<open>Makefile\<close>, \<open>LICENSE\<close> and \<open>a.js\<close>: the extension of the flattened names \<open>Makefile\<close> and
  \<open>LICENSE\<close> is the empty string, which is configured, and the copy loop cuts the name with
  \<open>slice(0, -0)\<close>, which leaves nothing of it.  Both files are copied to \<open>.txt\<close>, the second
  copy replacing the first, where the claim has the names \<open>Makefile.txt\<close> and \<open>LICENSE.txt\<close>.
  The file \<open>a.js\<close>, whose extension is not configured, keeps its name.
\<close>

theorem toTxt_empty_extension_drops_name:
  "flatten_action ignore_nothing (rooted_fs makefile_tree) ''/x'' (Some ''/r'') toTxt_empty
     = ([(''/r/Makefile'', ''/r/flatbrain/flattened/.txt''),
         (''/r/LICENSE'', ''/r/flatbrain/flattened/.txt''),
         (''/r/a.js'', ''/r/flatbrain/flattened/a.js'')], None)"
  by (simp add: flatten_action_def run_eval rooted_fs_def readFileSync_def
      makefile_tree_def toTxt_empty_def DEFAULT_LOCKFILES_def slice0_def
      ignore_nothing_def flattenedFileName_def getFlattenedFileName_def path_extname_def
      path_eval)

subsection \<open>C10: the name sets look at the kind of the entry\<close>

text \<open>
  C10.  For an entry that is not skipped for its structural name and that the ignore
  instance does not exclude: a directory is walked although its name is in \<open>excludeFiles\<close>,
  a regular file is appended to the file list although its name is in \<open>excludeDirs\<close>, and
  an entry that is neither is appended although its name is in both sets.
\<close>

theorem name_exclusion_kind_sensitive:
  assumes "name \<noteq> ''flatbrain''" and "name \<noteq> ''.git''"
    and "ig (path_relative rootDir (path_join dirPath name)) = Inr False"
  shows "(isDirectory entry \<and> name \<notin> excludeDirs \<longrightarrow>
            walkEntries ((name, entry) # rest) dirPath fileList rootDir ig excludeDirs
              (insert name excludeFiles)
            = (case walkDirectory entry (path_join dirPath name) fileList rootDir ig excludeDirs
                      (insert name excludeFiles) of
                 Inl e \<Rightarrow> Inl e
               | Inr fileList' \<Rightarrow>
                   walkEntries rest dirPath fileList' rootDir ig excludeDirs
                     (insert name excludeFiles)))
       \<and> (isFile entry \<and> name \<notin> excludeFiles \<longrightarrow>
            walkEntries ((name, entry) # rest) dirPath fileList rootDir ig
              (insert name excludeDirs) excludeFiles
            = walkEntries rest dirPath (fileList @ [path_join dirPath name]) rootDir ig
                (insert name excludeDirs) excludeFiles)
       \<and> (\<not> isDirectory entry \<and> \<not> isFile entry \<longrightarrow>
            walkEntries ((name, entry) # rest) dirPath fileList rootDir ig
              (insert name excludeDirs) (insert name excludeFiles)
            = walkEntries rest dirPath (fileList @ [path_join dirPath name]) rootDir ig
                (insert name excludeDirs) (insert name excludeFiles))"
  using assms by (cases entry) simp_all

theorem name_exclusion_kind_sensitive_witness:
  "''yarn.lock'' \<in> insert ''yarn.lock'' DEFAULT_LOCKFILES
   \<and> walkEntries [(''yarn.lock'', Dir [(''x.js'', File)])] ''/r'' [] ''/r'' ignore_none {}
        (insert ''yarn.lock'' DEFAULT_LOCKFILES)
      = Inr [''/r/yarn.lock/x.js'']
   \<and> walkEntries [(''build'', File)] ''/r'' [] ''/r'' ignore_none (insert ''build'' {}) DEFAULT_LOCKFILES
      = Inr [''/r/build'']
   \<and> walkEntries [(''yarn.lock'', Symlink)] ''/r'' [] ''/r'' ignore_none
        (insert ''yarn.lock'' {}) (insert ''yarn.lock'' DEFAULT_LOCKFILES)
      = Inr [''/r/yarn.lock'']"
proof -
  have y: "''yarn.lock'' \<noteq> ''flatbrain''" "''yarn.lock'' \<noteq> ''.git''" by simp_all
  have b: "''build'' \<noteq> ''flatbrain''" "''build'' \<noteq> ''.git''" by simp_all
  have jy: "path_join ''/r'' ''yarn.lock'' = ''/r/yarn.lock''"
    and jb: "path_join ''/r'' ''build'' = ''/r/build''"
    by (simp_all add: path_eval)
  have inner: "walkDirectory (Dir [(''x.js'', File)]) ''/r/yarn.lock'' [] ''/r'' ignore_none {}
                 (insert ''yarn.lock'' DEFAULT_LOCKFILES) = Inr [''/r/yarn.lock/x.js'']"
    by (simp add: ignore_none_False DEFAULT_LOCKFILES_def path_eval)
  have d1: "isDirectory (Dir [(''x.js'', File)]) \<and> ''yarn.lock'' \<notin> {}" by simp
  have d2: "isFile File \<and> ''build'' \<notin> DEFAULT_LOCKFILES"
    by (simp add: DEFAULT_LOCKFILES_def)
  have d3: "\<not> isDirectory Symlink \<and> \<not> isFile Symlink" by simp
  have "walkEntries [(''yarn.lock'', Dir [(''x.js'', File)])] ''/r'' [] ''/r'' ignore_none {}
          (insert ''yarn.lock'' DEFAULT_LOCKFILES)
        = (case walkDirectory (Dir [(''x.js'', File)]) (path_join ''/r'' ''yarn.lock'') [] ''/r''
                  ignore_none {} (insert ''yarn.lock'' DEFAULT_LOCKFILES) of
             Inl e \<Rightarrow> Inl e
           | Inr fileList' \<Rightarrow>
               walkEntries [] ''/r'' fileList' ''/r'' ignore_none {}
                 (insert ''yarn.lock'' DEFAULT_LOCKFILES))"
    by (rule name_exclusion_kind_sensitive [where ig = ignore_none, OF y ignore_none_False,
          THEN conjunct1, THEN mp, OF d1])
  also have "\<dots> = Inr [''/r/yarn.lock/x.js'']"
    unfolding jy inner by simp
  finally have 1: "walkEntries [(''yarn.lock'', Dir [(''x.js'', File)])] ''/r'' [] ''/r''
        ignore_none {} (insert ''yarn.lock'' DEFAULT_LOCKFILES) = Inr [''/r/yarn.lock/x.js'']" .
  have "walkEntries [(''build'', File)] ''/r'' [] ''/r'' ignore_none (insert ''build'' {})
          DEFAULT_LOCKFILES
        = walkEntries [] ''/r'' ([] @ [path_join ''/r'' ''build'']) ''/r'' ignore_none
            (insert ''build'' {}) DEFAULT_LOCKFILES"
    by (rule name_exclusion_kind_sensitive [where ig = ignore_none, OF b ignore_none_False,
          THEN conjunct2, THEN conjunct1, THEN mp, OF d2])
  also have "\<dots> = Inr [''/r/build'']"
    unfolding jb by simp
  finally have 2: "walkEntries [(''build'', File)] ''/r'' [] ''/r'' ignore_none (insert ''build'' {})
             DEFAULT_LOCKFILES = Inr [''/r/build'']" .
  have "walkEntries [(''yarn.lock'', Symlink)] ''/r'' [] ''/r'' ignore_none
          (insert ''yarn.lock'' {}) (insert ''yarn.lock'' DEFAULT_LOCKFILES)
        = walkEntries [] ''/r'' ([] @ [path_join ''/r'' ''yarn.lock'']) ''/r'' ignore_none
            (insert ''yarn.lock'' {}) (insert ''yarn.lock'' DEFAULT_LOCKFILES)"
    by (rule name_exclusion_kind_sensitive [where ig = ignore_none, OF y ignore_none_False,
          THEN conjunct2, THEN conjunct2, THEN mp, OF d3])
  also have "\<dots> = Inr [''/r/yarn.lock'']"
    unfolding jy by simp
  finally have 3: "walkEntries [(''yarn.lock'', Symlink)] ''/r'' [] ''/r'' ignore_none
        (insert ''yarn.lock'' {}) (insert ''yarn.lock'' DEFAULT_LOCKFILES) = Inr [''/r/yarn.lock'']" .
  show ?thesis using 1 2 3 by simp
qed

end
